theory Spec2Isabelle
  imports
    Complex_Main
    "HOL-Library.AList"
    "HOL-Library.Char_ord"
    "HOL-Library.List_Lexorder"
    "HOL-Library.Sublist"
begin

chapter \<open>Memory records: identifiers, store, migration, neighbourhood\<close>

text \<open>
  A shallow embedding of the memory subsystem of the repository:
  \<^item> \<^verbatim>\<open>core/src/k/agent/memory/entities.py\<close>: the identifier scheme;
  \<^item> \<^verbatim>\<open>core/src/k/agent/memory/store.py\<close>: the store protocol;
  \<^item> \<^verbatim>\<open>core/src/k/agent/memory/migrate_split.py\<close>: the split-layout migration;
  \<^item> \<^verbatim>\<open>data/fs/skills/meta/retrieve-memory/neighborhood.py\<close>: the neighbourhood tool.

  Conventions. A Python \<^verbatim>\<open>str\<close> is a \<^typ>\<open>string\<close>; a \<^typ>\<open>char\<close> stands for the
  code point of the same number, so the embedding covers the texts whose code points are
  below 256. A Python exception is a value \<open>Inl e\<close> of a sum type; a normal return is
  \<open>Inr v\<close>. Python's unbounded integers are \<^typ>\<open>int\<close> or \<^typ>\<open>nat\<close>.
\<close>

datatype error =
    ValueError
  | BinasciiError   \<comment> \<open>\<^verbatim>\<open>binascii.Error\<close>, a subclass of \<^verbatim>\<open>ValueError\<close>\<close>
  | TypeError
  | KeyError
  | FileNotFoundError
  | DuplicateIdError
  | Unmodelled      \<comment> \<open>the input leaves the embedding (a float, a code point above 255)\<close>

text \<open>What \<^verbatim>\<open>except ValueError\<close> catches.\<close>

definition is_ValueError :: "error \<Rightarrow> bool" where
  "is_ValueError e = (e = ValueError \<or> e = BinasciiError)"


section \<open>Identifier scheme (\<^verbatim>\<open>entities.py\<close>)\<close>

subsection \<open>Library functions used by the identifier scheme\<close>

text \<open>
  \<^verbatim>\<open>int(x)\<close> on a float truncates towards zero. The timestamp is taken as the real number
  the float denotes; the rounding of the floating-point product \<^verbatim>\<open>timestamp() * 1000\<close> is
  not part of the embedding.
\<close>

definition py_int :: "real \<Rightarrow> int" where
  "py_int x = (if 0 \<le> x then \<lfloor>x\<rfloor> else - \<lfloor>- x\<rfloor>)"

text \<open>\<^verbatim>\<open>n.to_bytes(k, byteorder="big", signed=False)\<close> and \<^verbatim>\<open>int.from_bytes(bs, "big")\<close>;
  a byte is a natural number below 256.\<close>

fun to_bytes :: "nat \<Rightarrow> nat \<Rightarrow> nat list" where
  "to_bytes 0 n = []"
| "to_bytes (Suc k) n = to_bytes k (n div 256) @ [n mod 256]"


text \<open>
  The base64 alphabet of \<^verbatim>\<open>binascii\<close>, \<^verbatim>\<open>A\<close> to \<^verbatim>\<open>Z\<close>, \<^verbatim>\<open>a\<close> to \<^verbatim>\<open>z\<close>, \<^verbatim>\<open>0\<close> to \<^verbatim>\<open>9\<close>,
  \<^verbatim>\<open>+\<close> and \<^verbatim>\<open>/\<close>, as the table from a 6-bit value to its character (\<open>b2a\<close>) and the
  table from a character to its value (\<open>table_a2b_base64\<close>), both written by code point
  ranges; then the two translations of the URL-safe variant (\<^verbatim>\<open>+\<close> to \<^verbatim>\<open>-\<close> and \<^verbatim>\<open>/\<close> to
  \<^verbatim>\<open>_\<close> on encoding, back on decoding).
\<close>

definition b2a :: "nat \<Rightarrow> char" where
  "b2a i =
     (if i < 26 then char_of (i + 65)
      else if i < 52 then char_of (i + 71)
      else if i < 62 then char_of (i - 4)
      else if i = 62 then CHR ''+''
      else CHR ''/'')"

definition table_a2b_base64 :: "char \<Rightarrow> nat option" where
  "table_a2b_base64 c =
     (let n = (of_char c :: nat) in
      if 65 \<le> n \<and> n \<le> 90 then Some (n - 65)
      else if 97 \<le> n \<and> n \<le> 122 then Some (n - 71)
      else if 48 \<le> n \<and> n \<le> 57 then Some (n + 4)
      else if c = CHR ''+'' then Some 62
      else if c = CHR ''/'' then Some 63
      else None)"

definition urlsafe_encode_translation :: "char \<Rightarrow> char" where
  "urlsafe_encode_translation c =
     (if c = CHR ''+'' then CHR ''-'' else if c = CHR ''/'' then CHR ''_'' else c)"

definition urlsafe_decode_translation :: "char \<Rightarrow> char" where
  "urlsafe_decode_translation c =
     (if c = CHR ''-'' then CHR ''+'' else if c = CHR ''_'' then CHR ''/'' else c)"

text \<open>\<^verbatim>\<open>binascii.b2a_base64(bs, newline=False)\<close>: three bytes give four 6-bit values
  (\<open>sextets\<close>) and so four characters; a shorter last group is padded with \<^verbatim>\<open>=\<close>.\<close>

definition sextets :: "nat \<Rightarrow> nat \<Rightarrow> nat \<Rightarrow> nat list" where
  "sextets a b c = [a div 4, (a mod 4) * 16 + b div 16, (b mod 16) * 4 + c div 64, c mod 64]"

fun b2a_base64 :: "nat list \<Rightarrow> string" where
  "b2a_base64 (a # b # c # rest) = map b2a (sextets a b c) @ b2a_base64 rest"
| "b2a_base64 [a, b] =
     [b2a (a div 4), b2a ((a mod 4) * 16 + b div 16), b2a ((b mod 16) * 4), CHR ''='']"
| "b2a_base64 [a] = [b2a (a div 4), b2a ((a mod 4) * 16), CHR ''='', CHR ''='']"
| "b2a_base64 [] = []"

definition urlsafe_b64encode :: "nat list \<Rightarrow> string" where
  "urlsafe_b64encode bs = map urlsafe_encode_translation (b2a_base64 bs)"

text \<open>
  \<^verbatim>\<open>binascii.a2b_base64\<close> in its default, non-strict mode, as the loop of the C
  implementation: \<open>quad_pos\<close> counts the characters of the current group, \<open>leftchar\<close>
  holds the bits not yet written, \<open>pads\<close> counts the padding characters seen in a row.
  Characters outside the alphabet are skipped; the loop stops at a complete padding; input
  that ends inside a group raises \<^verbatim>\<open>binascii.Error\<close>. The shifts and the bitwise or of the C
  code are written with \<open>*\<close>, \<open>div\<close>, \<open>mod\<close> and \<open>+\<close>: the operands have no bit in common.
\<close>

fun a2b_loop :: "nat \<Rightarrow> nat \<Rightarrow> nat \<Rightarrow> nat list \<Rightarrow> string \<Rightarrow> error + nat list" where
  "a2b_loop quad_pos leftchar pads bin_data [] =
     (if quad_pos \<noteq> 0 then Inl BinasciiError else Inr bin_data)"
| "a2b_loop quad_pos leftchar pads bin_data (c # cs) =
     (if c = CHR ''='' then
        (if 2 \<le> quad_pos \<and> 4 \<le> quad_pos + (pads + 1) then Inr bin_data
         else a2b_loop quad_pos leftchar (if 2 \<le> quad_pos then pads + 1 else pads) bin_data cs)
      else
        (case table_a2b_base64 c of
           None \<Rightarrow> a2b_loop quad_pos leftchar pads bin_data cs
         | Some v \<Rightarrow>
             (if quad_pos = 0 then a2b_loop 1 v 0 bin_data cs
              else if quad_pos = 1 then
                a2b_loop 2 (v mod 16) 0 (bin_data @ [leftchar * 4 + v div 16]) cs
              else if quad_pos = 2 then
                a2b_loop 3 (v mod 4) 0 (bin_data @ [leftchar * 16 + v div 4]) cs
              else a2b_loop 0 0 0 (bin_data @ [leftchar * 64 + v]) cs)))"

definition a2b_base64 :: "string \<Rightarrow> error + nat list" where
  "a2b_base64 s = a2b_loop 0 0 0 [] s"

text \<open>\<^verbatim>\<open>base64.urlsafe_b64decode\<close> on a \<^verbatim>\<open>str\<close>: the text is encoded as ASCII (a
  \<^verbatim>\<open>ValueError\<close> when it is not ASCII), translated and decoded.\<close>

definition urlsafe_b64decode :: "string \<Rightarrow> error + nat list" where
  "urlsafe_b64decode s =
     (if list_ex (\<lambda>c. 128 \<le> (of_char c :: nat)) s then Inl ValueError
      else a2b_base64 (map urlsafe_decode_translation s))"

text \<open>\<^verbatim>\<open>s.replace(old, "")\<close> for a non-empty \<open>old\<close>: occurrences are removed from left
  to right without overlap. The counter is the number of characters of the current
  occurrence still to skip.\<close>

fun py_remove :: "string \<Rightarrow> nat \<Rightarrow> string \<Rightarrow> string" where
  "py_remove old k [] = []"
| "py_remove old (Suc k) (c # cs) = py_remove old k cs"
| "py_remove old 0 (c # cs) =
     (if prefix old (c # cs) then py_remove old (length old - 1) cs
      else c # py_remove old 0 cs)"

text \<open>\<^verbatim>\<open>s.strip(chars)\<close> with an explicit character set.\<close>

definition py_strip_chars :: "char set \<Rightarrow> string \<Rightarrow> string" where
  "py_strip_chars cs s =
     rev (dropWhile (\<lambda>c. c \<in> cs) (rev (dropWhile (\<lambda>c. c \<in> cs) s)))"

text \<open>
  \<^verbatim>\<open>int(s, 16)\<close> on a \<^verbatim>\<open>str\<close>, as CPython parses it: white space around the literal,
  an optional sign, an optional \<^verbatim>\<open>0x\<close> prefix (which may be followed by one underscore),
  then hexadecimal digits with single underscores between them. Among the code points
  below 256 the white space accepted here is 9 to 13, 32, 133 and 160.
\<close>

definition int_space :: "char \<Rightarrow> bool" where
  "int_space c = (of_char c \<in> {9, 10, 11, 12, 13, 32, 133, 160 :: nat})"

definition hex_digit_value :: "char \<Rightarrow> nat option" where
  "hex_digit_value c =
     (let n = (of_char c :: nat) in
      if 48 \<le> n \<and> n \<le> 57 then Some (n - 48)
      else if 65 \<le> n \<and> n \<le> 70 then Some (n - 55)
      else if 97 \<le> n \<and> n \<le> 102 then Some (n - 87)
      else None)"

text \<open>The digits after the first one: \<open>prev_us\<close> tells that the previous character was an
  underscore, which must be followed by a digit.\<close>

fun hex_digits :: "nat \<Rightarrow> bool \<Rightarrow> string \<Rightarrow> error + nat" where
  "hex_digits acc prev_us [] = (if prev_us then Inl ValueError else Inr acc)"
| "hex_digits acc prev_us (c # cs) =
     (if c = CHR ''_'' then (if prev_us then Inl ValueError else hex_digits acc True cs)
      else (case hex_digit_value c of
              None \<Rightarrow> Inl ValueError
            | Some d \<Rightarrow> hex_digits (acc * 16 + d) False cs))"

definition hex_literal :: "string \<Rightarrow> error + nat" where
  "hex_literal s =
     (case s of
        [] \<Rightarrow> Inl ValueError
      | c # cs \<Rightarrow>
          (case hex_digit_value c of
             None \<Rightarrow> Inl ValueError
           | Some d \<Rightarrow> hex_digits d False cs))"

definition strip_0x :: "string \<Rightarrow> string" where
  "strip_0x s =
     (case s of
        c0 # cx # rest \<Rightarrow>
          (if c0 = CHR ''0'' \<and> (cx = CHR ''x'' \<or> cx = CHR ''X'') then
             (case rest of
                u # rest' \<Rightarrow> if u = CHR ''_'' then rest' else rest
              | [] \<Rightarrow> rest)
           else s)
      | _ \<Rightarrow> s)"

definition py_int_base16 :: "string \<Rightarrow> error + int" where
  "py_int_base16 s =
     (let t = rev (dropWhile int_space (rev (dropWhile int_space s))) in
      case t of
        [] \<Rightarrow> Inl ValueError
      | c # cs \<Rightarrow>
          if c = CHR ''+'' then map_sum id int (hex_literal (strip_0x cs))
          else if c = CHR ''-'' then map_sum id (\<lambda>n. - int n) (hex_literal (strip_0x cs))
          else map_sum id int (hex_literal (strip_0x t)))"

text \<open>
  \<^verbatim>\<open>uuid.UUID(value)\<close> for a \<^verbatim>\<open>str\<close>: the prefixes \<^verbatim>\<open>urn:\<close> and \<^verbatim>\<open>uuid:\<close>, surrounding
  braces and all hyphens are removed; what is left must have 32 characters and be read by
  \<^verbatim>\<open>int(_, 16)\<close> as a number from 0 to \<open>2^128 - 1\<close>. Every failure is a \<^verbatim>\<open>ValueError\<close>.
\<close>

definition UUID :: "string \<Rightarrow> error + int" where
  "UUID hex0 =
     (let hex1 = py_remove ''uuid:'' 0 (py_remove ''urn:'' 0 hex0);
          hex2 = py_remove ''-'' 0 (py_strip_chars {CHR ''{'', CHR ''}''} hex1)
      in if length hex2 \<noteq> 32 then Inl ValueError
         else (case py_int_base16 hex2 of
                 Inl e \<Rightarrow> Inl e
               | Inr n \<Rightarrow> if \<not> (0 \<le> n \<and> n < 2 ^ 128) then Inl ValueError else Inr n))"

subsection \<open>The functions of \<^verbatim>\<open>entities.py\<close>\<close>

text \<open>\<^verbatim>\<open>_B64URL_8_RE.fullmatch(value)\<close> for the pattern \<^verbatim>\<open>^[A-Za-z0-9_-]{8}$\<close>.\<close>

definition b64url_char :: "char \<Rightarrow> bool" where
  "b64url_char c =
     (let n = (of_char c :: nat) in
      (65 \<le> n \<and> n \<le> 90) \<or> (97 \<le> n \<and> n \<le> 122) \<or> (48 \<le> n \<and> n \<le> 57)
      \<or> c = CHR ''_'' \<or> c = CHR ''-'')"

definition B64URL_8_RE_fullmatch :: "string \<Rightarrow> bool" where
  "B64URL_8_RE_fullmatch s = (length s = 8 \<and> list_all b64url_char s)"

text \<open>Lines 35 to 38 of \<^verbatim>\<open>memory_record_id_from_created_at\<close>: the range check on
  the integer \<open>millis\<close>, its six big-endian bytes and their encoding. This part of the
  function works on integers and bytes only and is embedded as it is.\<close>

definition id_from_millis :: "int \<Rightarrow> error + string" where
  "id_from_millis millis =
     (if millis < 0 \<or> millis \<ge> 2 ^ 48 then Inl ValueError
      else Inr (urlsafe_b64encode (to_bytes 6 (nat millis))))"

text \<open>
  The whole function; the argument is \<^verbatim>\<open>created_at.timestamp()\<close>, the seconds since the
  epoch. Line 34 multiplies two floats, and the product is rounded to a double before
  \<^verbatim>\<open>int\<close> truncates it; here the product is the exact one. The two can differ by one
  millisecond (for the datetime 1.001 s after the epoch the program computes
  \<open>millis = 1000\<close>), so nothing is stated through this definition about the id of a given
  datetime: it serves for the question which timestamps are refused, and the properties of
  the id of a given \<open>millis\<close> are stated on \<open>id_from_millis\<close>.
\<close>

definition memory_record_id_from_created_at :: "real \<Rightarrow> error + string" where
  "memory_record_id_from_created_at timestamp = id_from_millis (py_int (timestamp * 1000))"

text \<open>
  \<^verbatim>\<open>is_memory_record_id\<close>. The first \<^verbatim>\<open>try\<close> catches \<^verbatim>\<open>ValueError\<close> only, the second one
  \<^verbatim>\<open>ValueError\<close>, \<^verbatim>\<open>binascii.Error\<close> and \<^verbatim>\<open>TypeError\<close>; any other exception would leave the
  function.
\<close>

definition is_memory_record_id :: "string \<Rightarrow> error + bool" where
  "is_memory_record_id v =
     (case UUID v of
        Inr _ \<Rightarrow> Inr True
      | Inl e \<Rightarrow>
          if \<not> is_ValueError e then Inl e
          else if \<not> B64URL_8_RE_fullmatch v then Inr False
          else (case urlsafe_b64decode v of
                  Inl e' \<Rightarrow> if is_ValueError e' \<or> e' = TypeError then Inr False else Inl e'
                | Inr decoded \<Rightarrow> Inr (length decoded = 6)))"


section \<open>Memory records and the store (\<^verbatim>\<open>entities.py\<close>, \<^verbatim>\<open>store.py\<close>)\<close>

text \<open>
  The fields of \<^verbatim>\<open>MemoryRecord\<close>; \<open>rec_id\<close> is the field \<^verbatim>\<open>id_\<close>. The entries of \<open>detailed\<close> are the request and response
  objects of an external library; the store does not look into them.
\<close>

typedecl model_message

record memory_record =
  created_at :: real
  rec_id :: string
  parents :: "string list"
  children :: "string list"
  raw_pair :: "string \<times> string"
  compacted :: "string list"
  detailed :: "model_message list"

text \<open>
  \<^verbatim>\<open>store.py\<close> declares the protocol \<^verbatim>\<open>MemoryStore\<close> only; the class that implements it is
  not among the sources. The store is therefore modelled from the specification: its state
  is the persisted collection of records in append order, and every operation reads and
  writes that state.
\<close>

type_synonym store = "(string \<times> memory_record) list"

text \<open>Modelled from the spec: \<^verbatim>\<open>get_by_id\<close> of the missing store implementation returns
  the record with the given id, or nothing.\<close>

definition get_by_id :: "store \<Rightarrow> string \<Rightarrow> memory_record option" where
  "get_by_id st i = map_of st i"

text \<open>Modelled from the spec: \<^verbatim>\<open>get_children\<close> of the missing store implementation returns
  the \<open>children\<close> list of the stored record in its order; in strict mode a child that is not
  stored is an error, and so is an id that is not stored.\<close>

definition get_children :: "store \<Rightarrow> string \<Rightarrow> bool \<Rightarrow> error + string list" where
  "get_children st i strict =
     (case get_by_id st i of
        None \<Rightarrow> if strict then Inl KeyError else Inr []
      | Some p \<Rightarrow>
          if strict \<and> list_ex (\<lambda>c. get_by_id st c = None) (children p) then Inl KeyError
          else Inr (children p))"

text \<open>Modelled from the spec: the back-link step of \<^verbatim>\<open>append\<close> of the missing store
  implementation; the id of the new record is appended to the \<open>children\<close> of a parent
  unless it is there already.\<close>

definition add_child :: "string \<Rightarrow> memory_record \<Rightarrow> memory_record" where
  "add_child c p = (if c \<in> set (children p) then p else p\<lparr>children := children p @ [c]\<rparr>)"

text \<open>Modelled from the spec: \<^verbatim>\<open>append\<close> of the missing store implementation fails with a
  duplicate-id error when the id is stored already; otherwise it persists the record at the
  end of the append order and updates every stored record that \<open>parents\<close> names. A parent
  that is not stored is accepted silently.\<close>

definition store_append :: "store \<Rightarrow> memory_record \<Rightarrow> error + store" where
  "store_append st r =
     (if rec_id r \<in> set (map fst st) then Inl DuplicateIdError
      else Inr (map (\<lambda>(i, p). if i \<in> set (parents r) then (i, add_child (rec_id r) p) else (i, p)) st
                @ [(rec_id r, r)]))"


section \<open>Neighbourhood traversal (\<^verbatim>\<open>neighborhood.py\<close>)\<close>

text \<open>
  The tool first builds an index from an id to the path of the file that holds the record,
  and \<^verbatim>\<open>load_record\<close> parses that file again. The embedding keeps the composition of the
  two: an index maps an id to the record read from its file, or to nothing when the id is
  not indexed or the file cannot be read. The links of a record are lists of ids (the tool
  applies \<^verbatim>\<open>str\<close> to every entry).
\<close>

type_synonym index = "(string \<times> memory_record) list"

definition load_record :: "index \<Rightarrow> string \<Rightarrow> memory_record option" where
  "load_record index mid = map_of index mid"

text \<open>The ids visited by the two nested \<^verbatim>\<open>for\<close> loops of \<^verbatim>\<open>related\<close>, in their order:
  the parents, then the children.\<close>

definition neighbours :: "memory_record \<Rightarrow> string list" where
  "neighbours rec = parents rec @ children rec"

text \<open>The dictionary \<^verbatim>\<open>depths\<close>, in insertion order, and the body of the inner loops:
  \<open>nxt\<close> is skipped when it has a depth that is not larger than the new one, or when the
  new depth exceeds the bound; otherwise its depth is set and it is queued.\<close>

type_synonym depths = "(string \<times> nat) list"

fun visit :: "int \<Rightarrow> nat \<Rightarrow> string list \<Rightarrow> depths \<times> string list \<Rightarrow> depths \<times> string list" where
  "visit max_depth d [] (depths, q) = (depths, q)"
| "visit max_depth d (nxt # rest) (depths, q) =
     (let nd = d + 1 in
      if (case map_of depths nxt of None \<Rightarrow> False | Some old \<Rightarrow> old \<le> nd)
      then visit max_depth d rest (depths, q)
      else if max_depth < int nd then visit max_depth d rest (depths, q)
      else visit max_depth d rest (AList.update nxt nd depths, q @ [nxt]))"

text \<open>The \<^verbatim>\<open>while q\<close> loop of \<^verbatim>\<open>related\<close>; \<open>hd q\<close> is \<^verbatim>\<open>cur\<close>, the result of
  \<^verbatim>\<open>q.popleft()\<close>, and \<open>tl q\<close> is the queue it leaves. A loop that does not end has the
  value \<open>None\<close>; \<^verbatim>\<open>depths[cur]\<close> on a missing key is a \<^verbatim>\<open>KeyError\<close>.\<close>

partial_function (option) related_loop ::
  "index \<Rightarrow> int \<Rightarrow> depths \<Rightarrow> string list \<Rightarrow> (error + depths) option" where
  "related_loop index max_depth depths q =
     (if q = [] then Some (Inr depths)
      else
        (case map_of depths (hd q) of
           None \<Rightarrow> Some (Inl KeyError)
         | Some d \<Rightarrow>
             if int d = max_depth then related_loop index max_depth depths (tl q)
             else
               (case load_record index (hd q) of
                  None \<Rightarrow> related_loop index max_depth depths (tl q)
                | Some rec \<Rightarrow>
                    related_loop index max_depth
                      (fst (visit max_depth d (neighbours rec) (depths, tl q)))
                      (snd (visit max_depth d (neighbours rec) (depths, tl q))))))"

definition related :: "index \<Rightarrow> string \<Rightarrow> int \<Rightarrow> (error + depths) option" where
  "related index start max_depth = related_loop index max_depth [(start, 0)] [start]"

text \<open>The output loop of \<^verbatim>\<open>main\<close>: the ids of \<^verbatim>\<open>depths\<close> in sorted order, each with its
  record; an id without a record is skipped, nothing is printed for it.\<close>

definition printed :: "index \<Rightarrow> depths \<Rightarrow> (string \<times> memory_record) list" where
  "printed index depths =
     concat (map (\<lambda>mid. case load_record index mid of None \<Rightarrow> [] | Some rec \<Rightarrow> [(mid, rec)])
                 (sort (map fst depths)))"

definition neighborhood_main ::
  "index \<Rightarrow> string \<Rightarrow> int \<Rightarrow> (error + (string \<times> memory_record) list) option" where
  "neighborhood_main index start levels =
     (case related index start levels of
        None \<Rightarrow> None
      | Some (Inl e) \<Rightarrow> Some (Inl e)
      | Some (Inr depths) \<Rightarrow> Some (Inr (printed index depths)))"

subsection \<open>Notions used to state and prove the properties of the traversal\<close>

text \<open>\<open>hops index x n y\<close>: \<open>y\<close> is reached from \<open>x\<close> in \<open>n\<close> steps, each step from a record
  that the index can load to an id among its parents or children.\<close>

inductive hops :: "index \<Rightarrow> string \<Rightarrow> nat \<Rightarrow> string \<Rightarrow> bool" for index x where
  hops_0: "hops index x 0 x"
| hops_Suc: "hops index x n y \<Longrightarrow> load_record index y = Some rec \<Longrightarrow> z \<in> set (neighbours rec)
             \<Longrightarrow> hops index x (Suc n) z"

definition reachable_within :: "index \<Rightarrow> int \<Rightarrow> string \<Rightarrow> string set" where
  "reachable_within index D start = {y. \<exists>n. int n \<le> D \<and> hops index start n y}"

text \<open>The loop invariant. \<open>sound\<close>: every recorded depth is the length of a path within the
  bound, the start has depth 0, every queued id has a depth. \<open>closed_at\<close>: the neighbours of
  a node below the bound have depths at most one more than its own; this holds for every
  node that is not queued.\<close>

definition sound :: "index \<Rightarrow> int \<Rightarrow> string \<Rightarrow> depths \<Rightarrow> string list \<Rightarrow> bool" where
  "sound index D start depths q \<longleftrightarrow>
     distinct (map fst depths) \<and> map_of depths start = Some 0
     \<and> (\<forall>y d. map_of depths y = Some d \<longrightarrow> int d \<le> D \<and> hops index start d y)
     \<and> set q \<subseteq> dom (map_of depths)"

definition closed_at :: "index \<Rightarrow> int \<Rightarrow> depths \<Rightarrow> string \<Rightarrow> bool" where
  "closed_at index D depths x \<longleftrightarrow>
     (\<forall>d rec z. map_of depths x = Some d \<and> int d < D \<and> load_record index x = Some rec
        \<and> z \<in> set (neighbours rec) \<longrightarrow> (\<exists>d'. map_of depths z = Some d' \<and> d' \<le> d + 1))"

definition loop_inv :: "index \<Rightarrow> int \<Rightarrow> string \<Rightarrow> depths \<Rightarrow> string list \<Rightarrow> bool" where
  "loop_inv index D start depths q \<longleftrightarrow>
     sound index D start depths q \<and> (\<forall>x. x \<notin> set q \<longrightarrow> closed_at index D depths x)"

text \<open>The termination measure: every id that occurs as a link weighs its depth, or one more
  than the bound while it has none; a queued id adds one.\<close>

definition all_links :: "index \<Rightarrow> string set" where
  "all_links index = (\<Union>(i, rec) \<in> set index. set (neighbours rec))"

definition weight :: "nat \<Rightarrow> depths \<Rightarrow> string \<Rightarrow> nat" where
  "weight B depths x = (case map_of depths x of None \<Rightarrow> B + 1 | Some d \<Rightarrow> min d (B + 1))"

definition potential :: "index \<Rightarrow> nat \<Rightarrow> depths \<Rightarrow> nat" where
  "potential index B depths = (\<Sum>x \<in> all_links index. weight B depths x)"

text \<open>The example of the specification: the chain \<open>A\<close>, \<open>B\<close>, \<open>C\<close>, \<open>D\<close>, each record the
  parent of the next one and the child of the one before.\<close>

definition link_record :: "string \<Rightarrow> string list \<Rightarrow> string list \<Rightarrow> memory_record" where
  "link_record i ps cs =
     \<lparr>created_at = 0, rec_id = i, parents = ps, children = cs, raw_pair = ('''', ''''),
      compacted = [], detailed = []\<rparr>"

definition chain_index :: index where
  "chain_index =
     [(''A'', link_record ''A'' [] [''B'']), (''B'', link_record ''B'' [''A''] [''C'']),
      (''C'', link_record ''C'' [''B''] [''D'']), (''D'', link_record ''D'' [''C''] [])]"


section \<open>Migration to the split layout (\<^verbatim>\<open>migrate_split.py\<close>)\<close>

subsection \<open>JSON values, \<^verbatim>\<open>json.dumps\<close> and \<^verbatim>\<open>json.loads\<close>\<close>

text \<open>
  The values that \<^verbatim>\<open>json.loads\<close> builds. A Python \<^verbatim>\<open>dict\<close> keeps its keys in insertion
  order: an object is the list of its items in that order. Floating point is outside the
  embedding: a number with a fraction or an exponent, \<^verbatim>\<open>NaN\<close> and \<^verbatim>\<open>Infinity\<close> have no
  value here, and neither has a text with a code point above 255; \<open>loads\<close> answers
  \<open>Unmodelled\<close> on them, which no \<^verbatim>\<open>except\<close> clause of the model catches.
\<close>

datatype json =
    JNull
  | JBool bool
  | JInt int
  | JStr string
  | JArr "json list"
  | JObj "(string \<times> json) list"

abbreviation DQ :: char where "DQ \<equiv> CHR 0x22"
abbreviation BSL :: char where "BSL \<equiv> CHR 0x5C"
abbreviation LF :: char where "LF \<equiv> CHR 0x0A"
abbreviation CR :: char where "CR \<equiv> CHR 0x0D"

text \<open>\<^verbatim>\<open>sep.join(xs)\<close>.\<close>

fun join :: "string \<Rightarrow> string list \<Rightarrow> string" where
  "join sep [] = []"
| "join sep [x] = x"
| "join sep (x # y # ys) = x @ sep @ join sep (y # ys)"

text \<open>Decimal digits of an integer, as \<^verbatim>\<open>int.__repr__\<close> prints them.\<close>

definition digit_char :: "nat \<Rightarrow> char" where
  "digit_char d = ''0123456789abcdef'' ! d"

function show_nat :: "nat \<Rightarrow> string" where
  "show_nat n =
     (if n < 10 then [digit_char n] else show_nat (n div 10) @ [digit_char (n mod 10)])"
  by pat_completeness auto
termination
  by (relation "measure id") auto

definition show_int :: "int \<Rightarrow> string" where
  "show_int i = (if i < 0 then CHR ''-'' # show_nat (nat (- i)) else show_nat (nat i))"

text \<open>
  The string encoder of \<^verbatim>\<open>json.dumps(..., ensure_ascii=False)\<close>: the quote, the backslash
  and the code points below 32 are escaped, every other character is copied as it is. In
  particular the code point 133 (next line) is copied.
\<close>

definition escape_char :: "char \<Rightarrow> string" where
  "escape_char c =
     (if c = DQ then [BSL, DQ]
      else if c = BSL then [BSL, BSL]
      else if c = LF then [BSL, CHR ''n'']
      else if c = CR then [BSL, CHR ''r'']
      else if c = CHR 0x09 then [BSL, CHR ''t'']
      else if c = CHR 0x08 then [BSL, CHR ''b'']
      else if c = CHR 0x0C then [BSL, CHR ''f'']
      else if (of_char c :: nat) < 32 then
        [BSL, CHR ''u'', CHR ''0'', CHR ''0'', digit_char (of_char c div 16),
         digit_char (of_char c mod 16)]
      else [c])"

definition encode_basestring :: "string \<Rightarrow> string" where
  "encode_basestring s = DQ # concat (map escape_char s) @ [DQ]"

text \<open>\<^verbatim>\<open>json.dumps(v, ensure_ascii=False, separators=(isep, ksep))\<close>. The keys of an object
  are strings, as they are in every value that \<open>loads\<close> returns.\<close>

fun dumps :: "string \<Rightarrow> string \<Rightarrow> json \<Rightarrow> string" where
  "dumps isep ksep JNull = ''null''"
| "dumps isep ksep (JBool b) = (if b then ''true'' else ''false'')"
| "dumps isep ksep (JInt i) = show_int i"
| "dumps isep ksep (JStr s) = encode_basestring s"
| "dumps isep ksep (JArr xs) = ''['' @ join isep (map (dumps isep ksep) xs) @ '']''"
| "dumps isep ksep (JObj kvs) =
     ''{'' @ join isep (map (\<lambda>kv. encode_basestring (fst kv) @ ksep @ dumps isep ksep (snd kv)) kvs)
     @ ''}''"

text \<open>The two calls of the module: \<^verbatim>\<open>separators=(",", ":")\<close>, and the default separators
  \<^verbatim>\<open>(", ", ": ")\<close>.\<close>

definition dumps_compact :: "json \<Rightarrow> string" where
  "dumps_compact v = dumps '','' '':'' v"

definition dumps_default :: "json \<Rightarrow> string" where
  "dumps_default v = dumps '', '' '': '' v"

text \<open>The scanner of \<^verbatim>\<open>json.loads\<close>. \<open>json_ws\<close> is its white space.\<close>

definition json_ws :: "char \<Rightarrow> bool" where
  "json_ws c = (c = CHR '' '' \<or> c = CHR 0x09 \<or> c = LF \<or> c = CR)"

definition skip_ws :: "string \<Rightarrow> string" where
  "skip_ws s = dropWhile json_ws s"

definition is_digit :: "char \<Rightarrow> bool" where
  "is_digit c = (48 \<le> (of_char c :: nat) \<and> (of_char c :: nat) \<le> 57)"

definition digits_value :: "string \<Rightarrow> nat" where
  "digits_value ds = foldl (\<lambda>acc c. acc * 10 + (of_char c - 48)) 0 ds"

text \<open>Four hexadecimal digits after \<^verbatim>\<open>\u\<close>.\<close>

definition hex4 :: "string \<Rightarrow> (nat \<times> string) option" where
  "hex4 s =
     (case s of
        a # b # c # d # rest \<Rightarrow>
          (case (hex_digit_value a, hex_digit_value b, hex_digit_value c, hex_digit_value d) of
             (Some x, Some y, Some z, Some w) \<Rightarrow> Some (((x * 16 + y) * 16 + z) * 16 + w, rest)
           | _ \<Rightarrow> None)
      | _ \<Rightarrow> None)"

text \<open>
  \<^verbatim>\<open>scanstring\<close> in strict mode, called after the opening quote: it returns the decoded
  string and the text after the closing quote. A control character in the literal, a bad
  escape and a missing closing quote are errors. A \<^verbatim>\<open>\u\<close> escape for a code point above 255
  (a surrogate pair included) leaves the embedding.
\<close>

fun scanstring :: "string \<Rightarrow> string \<Rightarrow> error + (string \<times> string)" where
  "scanstring acc [] = Inl ValueError"
| "scanstring acc [c] =
     (if c = DQ then Inr (acc, []) else Inl ValueError)"
| "scanstring acc (c # e # cs) =
     (if c = DQ then Inr (acc, e # cs)
      else if c = BSL then
        (if e = DQ then scanstring (acc @ [DQ]) cs
         else if e = BSL then scanstring (acc @ [BSL]) cs
         else if e = CHR ''/'' then scanstring (acc @ [CHR ''/'']) cs
         else if e = CHR ''b'' then scanstring (acc @ [CHR 0x08]) cs
         else if e = CHR ''f'' then scanstring (acc @ [CHR 0x0C]) cs
         else if e = CHR ''n'' then scanstring (acc @ [LF]) cs
         else if e = CHR ''r'' then scanstring (acc @ [CR]) cs
         else if e = CHR ''t'' then scanstring (acc @ [CHR 0x09]) cs
         else if e = CHR ''u'' then
           (case hex4 cs of
              None \<Rightarrow> Inl ValueError
            | Some (n, rest) \<Rightarrow>
                if n < 256 then scanstring (acc @ [char_of n]) (drop 4 cs) else Inl Unmodelled)
         else Inl ValueError)
      else if (of_char c :: nat) < 32 then Inl ValueError
      else scanstring (acc @ [c]) (e # cs))"

text \<open>
  A number: the longest match of \<^verbatim>\<open>-?(0|[1-9][0-9]*)\<close>; when a fraction or an exponent
  follows, the number is a float and leaves the embedding.
\<close>

definition float_follows :: "string \<Rightarrow> bool" where
  "float_follows s =
     (case s of
        c # d # rest \<Rightarrow>
          (c = CHR ''.'' \<and> is_digit d)
          \<or> ((c = CHR ''e'' \<or> c = CHR ''E'')
              \<and> (is_digit d
                  \<or> ((d = CHR ''+'' \<or> d = CHR ''-'') \<and> (case rest of [] \<Rightarrow> False | x # _ \<Rightarrow> is_digit x))))
      | _ \<Rightarrow> False)"

definition scan_nat :: "string \<Rightarrow> error + (nat \<times> string)" where
  "scan_nat s =
     (case s of
        [] \<Rightarrow> Inl ValueError
      | c # cs \<Rightarrow>
          if c = CHR ''0'' then (if float_follows cs then Inl Unmodelled else Inr (0, cs))
          else if is_digit c then
            (let ds = takeWhile is_digit s; rest = dropWhile is_digit s
             in if float_follows rest then Inl Unmodelled else Inr (digits_value ds, rest))
          else Inl ValueError)"

definition scan_number :: "string \<Rightarrow> error + (json \<times> string)" where
  "scan_number s =
     (case s of
        [] \<Rightarrow> Inl ValueError
      | c # cs \<Rightarrow>
          if c = CHR ''-'' then
            (case scan_nat cs of
               Inl e \<Rightarrow> if prefix ''Infinity'' cs then Inl Unmodelled else Inl e
             | Inr (n, rest) \<Rightarrow> Inr (JInt (- int n), rest))
          else
            (case scan_nat s of
               Inl e \<Rightarrow> Inl e
             | Inr (n, rest) \<Rightarrow> Inr (JInt (int n), rest)))"

text \<open>\<^verbatim>\<open>d[k] = v\<close> on a dictionary: the value of an existing key is replaced in place, a new
  key goes to the end.\<close>

definition dict_set :: "string \<Rightarrow> json \<Rightarrow> (string \<times> json) list \<Rightarrow> (string \<times> json) list" where
  "dict_set k v kvs = AList.update k v kvs"

text \<open>
  \<^verbatim>\<open>scan_once\<close> with the array and object scanners. The first argument bounds the calls:
  every call consumes a character, so the text itself is passed for it by \<open>loads\<close>; should
  it run out, the answer is \<open>Unmodelled\<close>. \<open>scan_items\<close> is called before a value of an
  array, \<open>scan_members\<close> before a key of an object.
\<close>

fun scan_once :: "string \<Rightarrow> string \<Rightarrow> error + (json \<times> string)"
  and scan_items :: "string \<Rightarrow> json list \<Rightarrow> string \<Rightarrow> error + (json \<times> string)"
  and scan_members :: "string \<Rightarrow> (string \<times> json) list \<Rightarrow> string \<Rightarrow> error + (json \<times> string)"
where
  "scan_once [] s = Inl Unmodelled"
| "scan_once (f # fuel) s =
     (case s of
        [] \<Rightarrow> Inl ValueError
      | c # cs \<Rightarrow>
          if c = DQ then
            (case scanstring [] cs of Inl e \<Rightarrow> Inl e | Inr (str, rest) \<Rightarrow> Inr (JStr str, rest))
          else if c = CHR ''{'' then
            (case skip_ws cs of
               [] \<Rightarrow> Inl ValueError
             | d # ds \<Rightarrow> if d = CHR ''}'' then Inr (JObj [], ds) else scan_members fuel [] (d # ds))
          else if c = CHR ''['' then
            (case skip_ws cs of
               [] \<Rightarrow> Inl ValueError
             | d # ds \<Rightarrow> if d = CHR '']'' then Inr (JArr [], ds) else scan_items fuel [] (d # ds))
          else if prefix ''null'' s then Inr (JNull, drop 4 s)
          else if prefix ''true'' s then Inr (JBool True, drop 4 s)
          else if prefix ''false'' s then Inr (JBool False, drop 5 s)
          else if c = CHR ''-'' \<or> is_digit c then scan_number s
          else if prefix ''NaN'' s \<or> prefix ''Infinity'' s then Inl Unmodelled
          else Inl ValueError)"
| "scan_items [] acc s = Inl Unmodelled"
| "scan_items (f # fuel) acc s =
     (case scan_once fuel s of
        Inl e \<Rightarrow> Inl e
      | Inr (v, rest) \<Rightarrow>
          (case skip_ws rest of
             [] \<Rightarrow> Inl ValueError
           | d # ds \<Rightarrow>
               if d = CHR '']'' then Inr (JArr (acc @ [v]), ds)
               else if d = CHR '','' then scan_items fuel (acc @ [v]) (skip_ws ds)
               else Inl ValueError))"
| "scan_members [] acc s = Inl Unmodelled"
| "scan_members (f # fuel) acc s =
     (case s of
        [] \<Rightarrow> Inl ValueError
      | c # cs \<Rightarrow>
          if c \<noteq> DQ then Inl ValueError
          else
            (case scanstring [] cs of
               Inl e \<Rightarrow> Inl e
             | Inr (key, rest) \<Rightarrow>
                 (case skip_ws rest of
                    [] \<Rightarrow> Inl ValueError
                  | d # ds \<Rightarrow>
                      if d \<noteq> CHR '':'' then Inl ValueError
                      else
                        (case scan_once fuel (skip_ws ds) of
                           Inl e \<Rightarrow> Inl e
                         | Inr (v, rest') \<Rightarrow>
                             (case skip_ws rest' of
                                [] \<Rightarrow> Inl ValueError
                              | x # xs \<Rightarrow>
                                  if x = CHR ''}'' then Inr (JObj (dict_set key v acc), xs)
                                  else if x = CHR '','' then
                                    scan_members fuel (dict_set key v acc) (skip_ws xs)
                                  else Inl ValueError)))))"

text \<open>\<^verbatim>\<open>json.loads(s)\<close>: white space, one value, white space, the end of the text.\<close>

definition loads :: "string \<Rightarrow> error + json" where
  "loads s =
     (case scan_once (CHR ''.'' # s @ s) (skip_ws s) of
        Inl e \<Rightarrow> Inl e
      | Inr (v, rest) \<Rightarrow> if skip_ws rest = [] then Inr v else Inl ValueError)"

subsection \<open>Lines and white space of \<^verbatim>\<open>str\<close>\<close>

text \<open>
  \<^verbatim>\<open>str.splitlines()\<close>: among the code points below 256 a line ends at 10, 11, 12, 13 (13
  followed by 10 counts once), 28, 29, 30 and 133; the last line needs no line end.
  \<^verbatim>\<open>str.strip()\<close> removes the white space 9 to 13, 28 to 32, 133 and 160 from both ends.
\<close>

definition line_boundary :: "char \<Rightarrow> bool" where
  "line_boundary c = (of_char c \<in> {10, 11, 12, 13, 28, 29, 30, 133 :: nat})"

fun splitlines_from :: "string \<Rightarrow> string \<Rightarrow> string list" where
  "splitlines_from cur [] = (if cur = [] then [] else [cur])"
| "splitlines_from cur [c] = (if line_boundary c then [cur] else [cur @ [c]])"
| "splitlines_from cur (c # d # cs) =
     (if c = CR \<and> d = LF then cur # splitlines_from [] cs
      else if line_boundary c then cur # splitlines_from [] (d # cs)
      else splitlines_from (cur @ [c]) (d # cs))"

definition splitlines :: "string \<Rightarrow> string list" where
  "splitlines s = splitlines_from [] s"

definition py_space :: "char \<Rightarrow> bool" where
  "py_space c = (of_char c \<in> {9, 10, 11, 12, 13, 28, 29, 30, 31, 32, 133, 160 :: nat})"

definition strip :: "string \<Rightarrow> string" where
  "strip s = rev (dropWhile py_space (rev (dropWhile py_space s)))"

subsection \<open>Paths and files\<close>

text \<open>
  A path is the list of its directory names and its file name. The file system maps the
  path of a file to the text stored in it (the files are UTF-8 text). \<^verbatim>\<open>read_text\<close> opens
  the file in text mode, which translates the line ends \<^verbatim>\<open>\r\n\<close> and \<^verbatim>\<open>\r\<close> to \<^verbatim>\<open>\n\<close>;
  reading a missing file raises. \<^verbatim>\<open>atomic_write_text\<close> writes a temporary file beside the
  target and renames it onto the target, which leaves the target with the new text (on a
  POSIX system, where writing translates nothing); \<^verbatim>\<open>unlink\<close> removes the file.
\<close>

type_synonym path = "string list \<times> string"

type_synonym fs = "(path \<times> string) list"

definition with_name :: "path \<Rightarrow> string \<Rightarrow> path" where
  "with_name p n = (fst p, n)"

definition exists :: "fs \<Rightarrow> path \<Rightarrow> bool" where
  "exists files p = (map_of files p \<noteq> None)"

fun universal_newlines :: "string \<Rightarrow> string" where
  "universal_newlines [] = []"
| "universal_newlines [c] = [if c = CR then LF else c]"
| "universal_newlines (c # d # cs) =
     (if c = CR \<and> d = LF then LF # universal_newlines cs
      else if c = CR then LF # universal_newlines (d # cs)
      else c # universal_newlines (d # cs))"

definition read_text :: "fs \<Rightarrow> path \<Rightarrow> error + string" where
  "read_text files p =
     (case map_of files p of
        None \<Rightarrow> Inl FileNotFoundError
      | Some t \<Rightarrow> Inr (universal_newlines t))"

definition atomic_write_text :: "fs \<Rightarrow> path \<Rightarrow> string \<Rightarrow> fs" where
  "atomic_write_text files p t = AList.update p t files"

definition unlink :: "fs \<Rightarrow> path \<Rightarrow> fs" where
  "unlink files p = AList.delete p files"

subsection \<open>The functions of \<^verbatim>\<open>migrate_split.py\<close>\<close>

definition record_id_from_path :: "path \<Rightarrow> error + string" where
  "record_id_from_path p =
     (let name = snd p in
      if suffix ''.core.json'' name then Inr (take (length name - length ''.core.json'') name)
      else if suffix ''.json'' name then Inr (take (length name - length ''.json'') name)
      else Inl ValueError)"

definition detailed_path_for_record_path :: "path \<Rightarrow> error + path" where
  "detailed_path_for_record_path p =
     (case record_id_from_path p of
        Inl e \<Rightarrow> Inl e | Inr record_id \<Rightarrow> Inr (with_name p (record_id @ ''.detailed.jsonl'')))"

definition legacy_detailed_path_for_record_path :: "path \<Rightarrow> error + path" where
  "legacy_detailed_path_for_record_path p =
     (case record_id_from_path p of
        Inl e \<Rightarrow> Inl e | Inr record_id \<Rightarrow> Inr (with_name p (record_id @ ''.detailed.json'')))"

definition core_path_for_record_path :: "path \<Rightarrow> error + path" where
  "core_path_for_record_path p =
     (case record_id_from_path p of
        Inl e \<Rightarrow> Inl e | Inr record_id \<Rightarrow> Inr (with_name p (record_id @ ''.core.json'')))"

definition legacy_compacted_path_for_record_path :: "path \<Rightarrow> error + path" where
  "legacy_compacted_path_for_record_path p =
     (case record_id_from_path p of
        Inl e \<Rightarrow> Inl e | Inr record_id \<Rightarrow> Inr (with_name p (record_id @ ''.compacted.json'')))"

text \<open>\<^verbatim>\<open>d.get(k)\<close> on the items of an object: a missing key gives \<^verbatim>\<open>None\<close>, which is also
  the value of JSON's \<^verbatim>\<open>null\<close>.\<close>

definition dict_get :: "(string \<times> json) list \<Rightarrow> string \<Rightarrow> json" where
  "dict_get kvs k = (case map_of kvs k of None \<Rightarrow> JNull | Some v \<Rightarrow> v)"

fun the_str :: "json \<Rightarrow> string option" where
  "the_str (JStr s) = Some s"
| "the_str _ = None"

definition coerce_compacted :: "json \<Rightarrow> string list option" where
  "coerce_compacted v =
     (case v of
        JArr items \<Rightarrow>
          if list_ex (\<lambda>item. the_str item = None) items then None
          else Some (List.map_filter the_str items)
      | _ \<Rightarrow> None)"

definition extract_legacy_model_responses :: "json \<Rightarrow> (string \<times> json) list list" where
  "extract_legacy_model_responses v =
     (case v of
        JArr items \<Rightarrow>
          concat (map (\<lambda>item. case item of
                                 JObj kvs \<Rightarrow> if dict_get kvs ''kind'' = JStr ''response'' then [kvs] else []
                               | _ \<Rightarrow> []) items)
      | _ \<Rightarrow> [])"

text \<open>The checks on the name and the arguments of one tool call, which
  \<^verbatim>\<open>_extract_tool_calls_from_response_dict\<close> and \<^verbatim>\<open>_parse_existing_detailed_jsonl\<close> share
  word for word: the name is a non-empty string, the arguments are \<^verbatim>\<open>None\<close>, a string or a
  dictionary.\<close>

definition simplified_tool_call :: "(string \<times> json) list \<Rightarrow> json list" where
  "simplified_tool_call kvs =
     (case dict_get kvs ''tool_name'' of
        JStr tool_name \<Rightarrow>
          if tool_name = [] then []
          else
            (case dict_get kvs ''args'' of
               JNull \<Rightarrow> [JObj [(''tool_name'', JStr tool_name), (''args'', JNull)]]
             | JStr a \<Rightarrow> [JObj [(''tool_name'', JStr tool_name), (''args'', JStr a)]]
             | JObj a \<Rightarrow> [JObj [(''tool_name'', JStr tool_name), (''args'', JObj a)]]
             | _ \<Rightarrow> [])
      | _ \<Rightarrow> [])"

definition extract_tool_calls_from_response_dict :: "(string \<times> json) list \<Rightarrow> json list" where
  "extract_tool_calls_from_response_dict resp =
     (case dict_get resp ''parts'' of
        JArr parts \<Rightarrow>
          concat (map (\<lambda>part. case part of
                                 JObj kvs \<Rightarrow>
                                   if dict_get kvs ''part_kind'' \<noteq> JStr ''tool-call'' then []
                                   else simplified_tool_call kvs
                               | _ \<Rightarrow> []) parts)
      | _ \<Rightarrow> [])"

definition extract_tool_calls_from_legacy_detailed :: "json \<Rightarrow> json list" where
  "extract_tool_calls_from_legacy_detailed v =
     concat (map extract_tool_calls_from_response_dict (extract_legacy_model_responses v))"

text \<open>\<^verbatim>\<open>try: json.loads(s) except ValueError\<close>: a decoding error becomes \<open>None\<close>.\<close>

definition try_loads :: "string \<Rightarrow> error + json option" where
  "try_loads s =
     (case loads s of
        Inr v \<Rightarrow> Inr (Some v)
      | Inl e \<Rightarrow> if is_ValueError e then Inr None else Inl e)"

text \<open>The loop over the lines of the prior schema: a line that does not decode is skipped,
  a response object contributes its tool calls.\<close>

fun prior_schema_tool_calls :: "string list \<Rightarrow> error + json list" where
  "prior_schema_tool_calls [] = Inr []"
| "prior_schema_tool_calls (line # rest) =
     (case try_loads line of
        Inl e \<Rightarrow> Inl e
      | Inr obj \<Rightarrow>
          (case prior_schema_tool_calls rest of
             Inl e \<Rightarrow> Inl e
           | Inr calls \<Rightarrow>
               (case obj of
                  Some (JObj kvs) \<Rightarrow>
                    if dict_get kvs ''kind'' = JStr ''response''
                    then Inr (extract_tool_calls_from_response_dict kvs @ calls)
                    else Inr calls
                | _ \<Rightarrow> Inr calls)))"

text \<open>
  \<^verbatim>\<open>_parse_existing_detailed_jsonl\<close>. The result \<open>None\<close> stands for the triple
  \<^verbatim>\<open>(None, None, [])\<close>; otherwise input and output are strings.
\<close>

definition parse_existing_detailed_jsonl ::
  "string \<Rightarrow> error + (string \<times> string \<times> json list) option" where
  "parse_existing_detailed_jsonl text =
     (let non_empty = map strip (filter (\<lambda>ln. strip ln \<noteq> []) (splitlines text)) in
      case non_empty of
        l0 # l1 # others \<Rightarrow>
          (case try_loads l0 of
             Inl e \<Rightarrow> Inl e
           | Inr None \<Rightarrow> Inr None
           | Inr (Some decoded_input) \<Rightarrow>
               (case try_loads l1 of
                  Inl e \<Rightarrow> Inl e
                | Inr None \<Rightarrow> Inr None
                | Inr (Some decoded_output) \<Rightarrow>
                    (case (the_str decoded_input, the_str decoded_output) of
                       (Some i, Some out) \<Rightarrow>
                         (case others of
                            [] \<Rightarrow> Inr (Some (i, out, []))
                          | l2 # _ \<Rightarrow>
                              (case try_loads l2 of
                                 Inl e \<Rightarrow> Inl e
                               | Inr (Some (JArr third)) \<Rightarrow>
                                   Inr (Some (i, out,
                                     concat (map (\<lambda>item. case item of
                                                            JObj kvs \<Rightarrow> simplified_tool_call kvs
                                                          | _ \<Rightarrow> []) third)))
                               | Inr _ \<Rightarrow>
                                   (case prior_schema_tool_calls others of
                                      Inl e \<Rightarrow> Inl e
                                    | Inr calls \<Rightarrow> Inr (Some (i, out, calls)))))
                     | _ \<Rightarrow> Inr None)))
      | _ \<Rightarrow> Inr None)"

text \<open>The field \<^verbatim>\<open>input\<close> or \<^verbatim>\<open>output\<close> of the record: absent (or \<^verbatim>\<open>null\<close>), a string,
  or an error.\<close>

definition str_field :: "(string \<times> json) list \<Rightarrow> string \<Rightarrow> error + string option" where
  "str_field record k =
     (case dict_get record k of
        JNull \<Rightarrow> Inr None
      | JStr s \<Rightarrow> Inr (Some s)
      | _ \<Rightarrow> Inl ValueError)"

text \<open>The core payload and its text (lines 239 to 246).\<close>

definition core_payload :: "(string \<times> json) list \<Rightarrow> string list \<Rightarrow> (string \<times> json) list" where
  "core_payload record compacted_list =
     dict_set ''compacted'' (JArr (map JStr compacted_list))
       (filter (\<lambda>kv. fst kv \<notin> {''input'', ''output'', ''detailed''}) record)"

definition core_text_of :: "(string \<times> json) list \<Rightarrow> string list \<Rightarrow> string" where
  "core_text_of record compacted_list = dumps_compact (JObj (core_payload record compacted_list)) @ [LF]"

text \<open>The three detail lines and their text (lines 256 to 274).\<close>

definition detail_lines_of :: "string \<Rightarrow> string \<Rightarrow> json list \<Rightarrow> string list" where
  "detail_lines_of i out tool_calls =
     [dumps_default (JStr i), dumps_default (JStr out), dumps_compact (JArr tool_calls)]"

definition detailed_text_of :: "string list \<Rightarrow> string" where
  "detailed_text_of detail_lines = (if detail_lines = [] then [] else join [LF] detail_lines @ [LF])"

text \<open>Lines 232 to 237: the compacted list of the record, else that of the sidecar, else
  the empty list.\<close>

definition resolve_compacted :: "fs \<Rightarrow> path \<Rightarrow> (string \<times> json) list \<Rightarrow> error + string list" where
  "resolve_compacted files legacy_compacted_path record =
     (case coerce_compacted (dict_get record ''compacted'') of
        Some c \<Rightarrow> Inr c
      | None \<Rightarrow>
          if exists files legacy_compacted_path then
            (case read_text files legacy_compacted_path of
               Inl e \<Rightarrow> Inl e
             | Inr t \<Rightarrow>
                 (case loads t of
                    Inl e \<Rightarrow> Inl e
                  | Inr v \<Rightarrow> Inr (case coerce_compacted v of None \<Rightarrow> [] | Some c \<Rightarrow> c)))
          else Inr [])"

text \<open>Lines 248 to 274: the detail lines come from the record when it has both \<^verbatim>\<open>input\<close>
  and \<^verbatim>\<open>output\<close>, else from an existing detailed file, the legacy one first.\<close>

definition resolve_detail_lines ::
  "fs \<Rightarrow> path \<Rightarrow> path \<Rightarrow> (string \<times> json) list \<Rightarrow> string option \<Rightarrow> string option
   \<Rightarrow> error + string list" where
  "resolve_detail_lines files legacy_detailed_path detailed_path record input_value output_value =
     (case (if exists files legacy_detailed_path then read_text files legacy_detailed_path
            else if exists files detailed_path then read_text files detailed_path
            else Inr []) of
        Inl e \<Rightarrow> Inl e
      | Inr existing_detailed_text \<Rightarrow>
          (case (input_value, output_value) of
             (Some i, Some out) \<Rightarrow>
               Inr (detail_lines_of i out
                      (extract_tool_calls_from_legacy_detailed (dict_get record ''detailed'')))
           | _ \<Rightarrow>
               if existing_detailed_text \<noteq> [] then
                 (case parse_existing_detailed_jsonl existing_detailed_text of
                    Inl e \<Rightarrow> Inl e
                  | Inr None \<Rightarrow> Inr []
                  | Inr (Some (i, out, calls)) \<Rightarrow> Inr (detail_lines_of i out calls))
               else Inr []))"

text \<open>Lines 276 to 288: does a generated text differ from the file it would replace?\<close>

definition compute_changed :: "fs \<Rightarrow> path \<Rightarrow> string \<Rightarrow> path \<Rightarrow> string \<Rightarrow> bool" where
  "compute_changed files core_path core_text detailed_path detailed_text =
     ((if exists files core_path then read_text files core_path \<noteq> Inr core_text else True)
      \<or> (detailed_text \<noteq> []
          \<and> (if exists files detailed_path then read_text files detailed_path \<noteq> Inr detailed_text
              else True)))"

text \<open>Lines 293 to 300: the writes and the deletions.\<close>

definition write_out ::
  "fs \<Rightarrow> path \<Rightarrow> string \<Rightarrow> path \<Rightarrow> string \<Rightarrow> path \<Rightarrow> path \<Rightarrow> bool \<Rightarrow> fs" where
  "write_out files core_path core_text detailed_path detailed_text legacy_detailed_path
       legacy_compacted_path delete_legacy_compacted =
     (let files1 = atomic_write_text files core_path core_text;
          files2 = (if detailed_text \<noteq> [] then
                      (let files' = atomic_write_text files1 detailed_path detailed_text
                       in if exists files' legacy_detailed_path
                          then unlink files' legacy_detailed_path else files')
                    else files1)
      in if delete_legacy_compacted \<and> exists files2 legacy_compacted_path
         then unlink files2 legacy_compacted_path else files2)"

text \<open>
  \<^verbatim>\<open>migrate_record_file\<close>. The result is the returned flag and the file system the call
  leaves. The parameter \<open>force\<close> is accepted and, as in the source, read nowhere.
\<close>

definition migrate_record_file :: "fs \<Rightarrow> path \<Rightarrow> bool \<Rightarrow> bool \<Rightarrow> bool \<Rightarrow> error + (bool \<times> fs)" where
  "migrate_record_file files p delete_legacy_compacted force dry_run =
     (case read_text files p of
        Inl e \<Rightarrow> Inl e
      | Inr raw \<Rightarrow>
     (case loads raw of
        Inl e \<Rightarrow> Inl e
      | Inr (JObj record) \<Rightarrow>
     (case (core_path_for_record_path p, detailed_path_for_record_path p,
            legacy_detailed_path_for_record_path p, legacy_compacted_path_for_record_path p) of
        (Inr core_path, Inr detailed_path, Inr legacy_detailed_path, Inr legacy_compacted_path) \<Rightarrow>
     (case str_field record ''input'' of
        Inl e \<Rightarrow> Inl e
      | Inr input_value \<Rightarrow>
     (case str_field record ''output'' of
        Inl e \<Rightarrow> Inl e
      | Inr output_value \<Rightarrow>
     (case resolve_compacted files legacy_compacted_path record of
        Inl e \<Rightarrow> Inl e
      | Inr compacted_list \<Rightarrow>
     (case resolve_detail_lines files legacy_detailed_path detailed_path record
             input_value output_value of
        Inl e \<Rightarrow> Inl e
      | Inr detail_lines \<Rightarrow>
          (let core_text = core_text_of record compacted_list;
               detailed_text = detailed_text_of detail_lines;
               changed = compute_changed files core_path core_text detailed_path detailed_text
           in if dry_run \<or> \<not> changed then Inr (changed, files)
              else Inr (True, write_out files core_path core_text detailed_path detailed_text
                                legacy_detailed_path legacy_compacted_path
                                delete_legacy_compacted))))))
      | _ \<Rightarrow> Inl ValueError)
      | Inr _ \<Rightarrow> Inl ValueError))"

text \<open>
  \<^verbatim>\<open>iter_record_files\<close>: the files below the root whose name ends in \<^verbatim>\<open>.json\<close>, without the
  detailed and compacted files, and without a bare \<^verbatim>\<open>X.json\<close> that has an \<^verbatim>\<open>X.core.json\<close>
  beside it. \<open>stem\<close> is \<^verbatim>\<open>path.stem\<close>, the name up to its last dot.
\<close>

definition stem :: "string \<Rightarrow> string" where
  "stem name =
     (let after = takeWhile (\<lambda>c. c \<noteq> CHR ''.'') (rev name);
          i = length name - length after - 1
      in if CHR ''.'' \<in> set name \<and> 0 < i \<and> i < length name - 1 then take i name else name)"

definition iter_record_files :: "fs \<Rightarrow> string list \<Rightarrow> path list" where
  "iter_record_files files records_root =
     filter (\<lambda>p. let name = snd p in
                  prefix records_root (fst p) \<and> suffix ''.json'' name
                  \<and> \<not> (suffix ''.detailed.json'' name \<or> suffix ''.compacted.json'' name)
                  \<and> \<not> (suffix ''.json'' name \<and> \<not> suffix ''.core.json'' name
                        \<and> exists files (with_name p (stem name @ ''.core.json''))))
            (map fst files)"

text \<open>
  The loop of \<^verbatim>\<open>main\<close> over the sorted paths, with its three counters: a call that raises
  counts as an error and the loop goes on. The result is the file system and the numbers
  \<open>changed\<close>, \<open>skipped\<close>, \<open>errors\<close> of the summary line.
\<close>

fun migrate_loop ::
  "bool \<Rightarrow> bool \<Rightarrow> bool \<Rightarrow> path list \<Rightarrow> fs \<times> nat \<times> nat \<times> nat \<Rightarrow> error + (fs \<times> nat \<times> nat \<times> nat)" where
  "migrate_loop dlc force dry_run [] st = Inr st"
| "migrate_loop dlc force dry_run (p # ps) (files, changed, skipped, errors) =
     (case migrate_record_file files p dlc force dry_run of
        Inl e \<Rightarrow>
          if e = Unmodelled then Inl Unmodelled
          else migrate_loop dlc force dry_run ps (files, changed, skipped, errors + 1)
      | Inr (did_change, files') \<Rightarrow>
          if did_change then migrate_loop dlc force dry_run ps (files', changed + 1, skipped, errors)
          else migrate_loop dlc force dry_run ps (files', changed, skipped + 1, errors))"

definition migrate_main ::
  "fs \<Rightarrow> string list \<Rightarrow> bool \<Rightarrow> bool \<Rightarrow> bool \<Rightarrow> error + (fs \<times> nat \<times> nat \<times> nat)" where
  "migrate_main files records_root delete_legacy_compacted force dry_run =
     migrate_loop delete_legacy_compacted force dry_run
       (sort_key (\<lambda>p. fst p @ [snd p]) (iter_record_files files records_root))
       (files, 0, 0, 0)"



subsection \<open>Example files\<close>

text \<open>
  A legacy record \<^verbatim>\<open>X.json\<close> with \<^verbatim>\<open>input\<close>, \<^verbatim>\<open>output\<close> and one traced response that
  holds one tool call; the argument of the call contains the code point 133 (next line).
  \<open>example_fs1\<close> is the directory after one migration, \<open>example_fs2\<close> after two.
\<close>

definition example_root :: "string list" where
  "example_root = [''records'']"

definition example_tool_calls :: "json list" where
  "example_tool_calls =
     [JObj [(''tool_name'', JStr ''t''), (''args'', JStr (''a'' @ [CHR 0x85] @ ''b''))]]"

definition example_legacy :: json where
  "example_legacy =
     JObj [(''id_'', JStr ''X''), (''input'', JStr ''hi''), (''output'', JStr ''ok''),
           (''detailed'',
            JArr [JObj [(''kind'', JStr ''response''),
                        (''parts'',
                         JArr [JObj [(''part_kind'', JStr ''tool-call''),
                                     (''tool_name'', JStr ''t''),
                                     (''args'', JStr (''a'' @ [CHR 0x85] @ ''b''))]])]])]"

definition example_core_text :: string where
  "example_core_text = dumps_compact (JObj [(''id_'', JStr ''X''), (''compacted'', JArr [])]) @ [LF]"

definition example_fs0 :: fs where
  "example_fs0 = [((example_root, ''X.json''), dumps_compact example_legacy)]"

definition example_fs1 :: fs where
  "example_fs1 =
     example_fs0
     @ [((example_root, ''X.core.json''), example_core_text),
        ((example_root, ''X.detailed.jsonl''),
         detailed_text_of (detail_lines_of ''hi'' ''ok'' example_tool_calls))]"

definition example_fs2 :: fs where
  "example_fs2 =
     example_fs0
     @ [((example_root, ''X.core.json''), example_core_text),
        ((example_root, ''X.detailed.jsonl''), detailed_text_of (detail_lines_of ''hi'' ''ok'' []))]"

text \<open>
  A legacy record \<^verbatim>\<open>X.json\<close> with \<^verbatim>\<open>input\<close> and \<^verbatim>\<open>output\<close>, without \<^verbatim>\<open>compacted\<close>, beside
  the sidecar \<^verbatim>\<open>X.compacted.json\<close> that holds \<^verbatim>\<open>["summary"]\<close>. \<open>example_sidecar_fs1\<close> is
  the directory after one migration that deletes the sidecar.
\<close>

definition example_sidecar_fs :: fs where
  "example_sidecar_fs =
     [((example_root, ''X.json''),
       dumps_compact (JObj [(''id_'', JStr ''X''), (''input'', JStr ''hi''), (''output'', JStr ''ok'')])),
      ((example_root, ''X.compacted.json''), dumps_compact (JArr [JStr ''summary'']))]"

definition example_sidecar_fs1 :: fs where
  "example_sidecar_fs1 =
     [((example_root, ''X.json''),
       dumps_compact (JObj [(''id_'', JStr ''X''), (''input'', JStr ''hi''), (''output'', JStr ''ok'')])),
      ((example_root, ''X.core.json''),
       dumps_compact (JObj [(''id_'', JStr ''X''), (''compacted'', JArr [JStr ''summary''])]) @ [LF]),
      ((example_root, ''X.detailed.jsonl''), detailed_text_of (detail_lines_of ''hi'' ''ok'' []))]"

section \<open>Properties of the identifier scheme\<close>

subsection \<open>Base64 round trip on six bytes\<close>

lemma char_of_eq_iff: "n < 256 \<Longrightarrow> (char_of n = c) = (n = (of_char c :: nat))"
  by (metis of_char_of char_of_char mod_less)






lemma b2a_base64_6:
  "b2a_base64 [a, b, c, d, e, f] = map b2a (sextets a b c) @ map b2a (sextets d e f)"
  by (simp add: sextets_def)

lemma to_bytes_6:
  "to_bytes 6 n =
     [n div 256 div 256 div 256 div 256 div 256 mod 256, n div 256 div 256 div 256 div 256 mod 256,
      n div 256 div 256 div 256 mod 256, n div 256 div 256 mod 256, n div 256 mod 256, n mod 256]"
proof -
  have "(6::nat) = Suc (Suc (Suc (Suc (Suc (Suc 0)))))" by simp
  then show ?thesis by (simp only: to_bytes.simps append_Nil append_Cons)
qed





lemma id_zero: "id_from_millis 0 = Inr ''AAAAAAAA''"
  by (simp add: id_from_millis_def urlsafe_b64encode_def to_bytes_6 sextets_def b2a_def
      char_of_eq_iff urlsafe_encode_translation_def)



subsection \<open>Validation of identifiers\<close>

lemma hex_digits_error: "hex_digits acc p cs = Inl e \<Longrightarrow> e = ValueError"
  by (induction cs arbitrary: acc p) (auto split: if_splits option.splits)

lemma hex_literal_error: "hex_literal s = Inl e \<Longrightarrow> e = ValueError"
  by (auto simp: hex_literal_def split: list.splits option.splits dest: hex_digits_error)

lemma py_int_base16_error: "py_int_base16 s = Inl e \<Longrightarrow> e = ValueError"
  unfolding py_int_base16_def Let_def
  by (cases "hex_literal (strip_0x (tl (rev (dropWhile int_space (rev (dropWhile int_space s))))))";
      cases "hex_literal (strip_0x (rev (dropWhile int_space (rev (dropWhile int_space s)))))")
     (auto split: list.splits if_splits dest: hex_literal_error)

lemma UUID_error: "UUID s = Inl e \<Longrightarrow> e = ValueError"
  unfolding UUID_def Let_def
  by (auto split: if_splits sum.splits dest: py_int_base16_error)

lemma a2b_loop_error: "a2b_loop q l p out cs = Inl e \<Longrightarrow> e = BinasciiError"
  by (induction q l p out cs rule: a2b_loop.induct) (auto split: if_splits option.splits)

lemma urlsafe_b64decode_error: "urlsafe_b64decode s = Inl e \<Longrightarrow> is_ValueError e"
  by (auto simp: urlsafe_b64decode_def a2b_base64_def is_ValueError_def
      split: if_splits dest: a2b_loop_error)

lemma is_memory_record_id_eq:
  "is_memory_record_id s =
     Inr ((\<exists>n. UUID s = Inr n)
          \<or> (B64URL_8_RE_fullmatch s \<and> (\<exists>d. urlsafe_b64decode s = Inr d \<and> length d = 6)))"
proof (cases "UUID s")
  case (Inr n)
  then show ?thesis by (simp add: is_memory_record_id_def)
next
  case (Inl e)
  then have e: "is_ValueError e" by (auto simp: is_ValueError_def dest: UUID_error)
  show ?thesis
  proof (cases "urlsafe_b64decode s")
    case (Inl e')
    then show ?thesis
      using \<open>UUID s = Inl e\<close> e urlsafe_b64decode_error [OF Inl]
      by (simp add: is_memory_record_id_def)
  next
    case (Inr d)
    then show ?thesis
      using \<open>UUID s = Inl e\<close> e by (simp add: is_memory_record_id_def)
  qed
qed

text \<open>
  Claim C5. For every string \<open>s\<close>, \<^verbatim>\<open>is_memory_record_id\<close> returns true if and only if
  \<open>s\<close> parses as a UUID, or \<open>s\<close> matches the pattern of eight base64url characters and
  decodes to exactly six bytes; on every other string it returns false.
\<close>

theorem is_memory_record_id_iff:
  "is_memory_record_id s =
     Inr ((\<exists>n. UUID s = Inr n)
          \<or> (B64URL_8_RE_fullmatch s \<and> (\<exists>d. urlsafe_b64decode s = Inr d \<and> length d = 6)))"
  by (rule is_memory_record_id_eq)

theorem is_memory_record_id_iff_witness:
  "is_memory_record_id ''not-a-uuid'' =
     Inr ((\<exists>n. UUID ''not-a-uuid'' = Inr n)
          \<or> (B64URL_8_RE_fullmatch ''not-a-uuid''
              \<and> (\<exists>d. urlsafe_b64decode ''not-a-uuid'' = Inr d \<and> length d = 6)))
   \<and> \<not> B64URL_8_RE_fullmatch ''not-a-uuid''
   \<and> UUID ''not-a-uuid'' = Inl ValueError"
  using is_memory_record_id_iff [of "''not-a-uuid''"]
  by (simp add: B64URL_8_RE_fullmatch_def UUID_def py_strip_chars_def)

text \<open>
  Claim C9. \<^verbatim>\<open>is_memory_record_id\<close> is total: on every string, malformed ones included, it
  returns a boolean and raises no exception; the exceptions of the UUID parser and of the
  base64 decoder are all caught inside.
\<close>

theorem is_memory_record_id_total: "\<exists>b. is_memory_record_id s = Inr b"
  by (simp add: is_memory_record_id_eq)

theorem is_memory_record_id_total_witness:
  "\<exists>b. is_memory_record_id (''{'' @ [CHR 0x85] @ ''=-'') = Inr b"
  by (rule is_memory_record_id_total)

subsection \<open>Range of the derived identifier\<close>

lemma py_int_neg_iff: "py_int x < 0 \<longleftrightarrow> x \<le> - 1"
proof (cases "0 \<le> x")
  case True
  then show ?thesis by (simp add: py_int_def)
next
  case False
  have "1 \<le> \<lfloor>- x\<rfloor> \<longleftrightarrow> 1 \<le> - x" by (simp only: le_floor_iff of_int_1)
  then show ?thesis using False by (simp add: py_int_def)
qed

lemma py_int_ge_iff: "2 ^ 48 \<le> py_int x \<longleftrightarrow> 2 ^ 48 \<le> x"
proof (cases "0 \<le> x")
  case True
  then show ?thesis by (simp add: py_int_def le_floor_iff)
next
  case False
  then have "py_int x \<le> 0" by (simp add: py_int_def) linarith?
  then show ?thesis using False by simp
qed

text \<open>
  Claim C7, as amended. The derivation computes \<open>millis\<close> as \<open>created_at * 1000\<close> truncated
  towards zero (Python's \<^verbatim>\<open>int\<close>), not rounded down. So it raises, with a \<^verbatim>\<open>ValueError\<close>,
  exactly when \<open>created_at * 1000 \<le> - 1\<close> or \<open>created_at * 1000 \<ge> 2^48\<close>, and returns an id
  exactly when \<open>- 1 < created_at * 1000 < 2^48\<close>.
\<close>

theorem created_at_range:
  "(memory_record_id_from_created_at t = Inl ValueError) = (t * 1000 \<le> - 1 \<or> 2 ^ 48 \<le> t * 1000)
   \<and> ((\<exists>s. memory_record_id_from_created_at t = Inr s) = (- 1 < t * 1000 \<and> t * 1000 < 2 ^ 48))"
  using py_int_neg_iff [of "t * 1000"] py_int_ge_iff [of "t * 1000"]
  by (auto simp: memory_record_id_from_created_at_def id_from_millis_def)

theorem created_at_range_witness:
  "(memory_record_id_from_created_at (- 3 / 2) = Inl ValueError)
     = ((- 3 / 2 :: real) * 1000 \<le> - 1 \<or> 2 ^ 48 \<le> (- 3 / 2 :: real) * 1000)
   \<and> ((\<exists>s. memory_record_id_from_created_at (- 3 / 2) = Inr s)
     = (- 1 < (- 3 / 2 :: real) * 1000 \<and> (- 3 / 2 :: real) * 1000 < 2 ^ 48))"
  by (rule created_at_range)

text \<open>
  Claim C7, as stated, fails half a millisecond before the epoch: the floor of
  \<open>created_at * 1000\<close> is negative there, and yet the derivation returns the id of
  millisecond 0.
\<close>

theorem created_at_floor_counterexample:
  "\<lfloor>(- 1 / 2000 :: real) * 1000\<rfloor> < 0
   \<and> memory_record_id_from_created_at (- 1 / 2000) = Inr ''AAAAAAAA''"
  by (simp add: memory_record_id_from_created_at_def py_int_def id_zero)


section \<open>Properties of the store\<close>

lemma map_of_backlink:
  "map_of (map (\<lambda>(i, p). if i \<in> A then (i, f p) else (i, p)) st) k
     = map_option (\<lambda>p. if k \<in> A then f p else p) (map_of st k)"
  by (induction st) auto

lemma get_by_id_append_old:
  assumes "store_append st r = Inr st'" and "get_by_id st k = Some p"
  shows "get_by_id st' k = Some (if k \<in> set (parents r) then add_child (rec_id r) p else p)"
proof -
  have st': "st' = map (\<lambda>(i, p). if i \<in> set (parents r) then (i, add_child (rec_id r) p) else (i, p)) st
                @ [(rec_id r, r)]"
    using assms(1) by (simp add: store_append_def split: if_splits)
  show ?thesis
    using assms(2) by (simp add: st' get_by_id_def map_of_backlink map_add_def)
qed

lemma get_by_id_append_new:
  assumes "store_append st r = Inr st'"
  shows "get_by_id st' (rec_id r) = Some r"
proof -
  have fresh: "rec_id r \<notin> set (map fst st)" and
    st': "st' = map (\<lambda>(i, p). if i \<in> set (parents r) then (i, add_child (rec_id r) p) else (i, p)) st
                @ [(rec_id r, r)]"
    using assms(1) by (simp_all add: store_append_def split: if_splits)
  have "map_of st (rec_id r) = None" using fresh by (simp add: map_of_eq_None_iff)
  then show ?thesis
    by (simp add: st' get_by_id_def map_of_backlink map_add_def)
qed

text \<open>
  Claim C3. For every store and every record \<open>r\<close> with \<open>parents = [P]\<close> where \<open>P\<close> is stored,
  after \<open>append r\<close> has returned, \<open>get_children P\<close> is the former list of children of \<open>P\<close>
  with the id of \<open>r\<close> appended at the end unless it was there already: the order of the
  former children is kept and no duplicate arises. The update is part of the persisted state
  that \<open>append\<close> returns, which also holds \<open>r\<close> itself; a repeated attempt to append \<open>r\<close> is
  rejected as a duplicate and changes nothing.
\<close>

theorem append_backlink:
  assumes "parents r = [P]" and "get_by_id st P = Some p" and "store_append st r = Inr st'"
  shows "get_children st' P False
           = Inr (if rec_id r \<in> set (children p) then children p else children p @ [rec_id r])
         \<and> (\<exists>p'. get_by_id st' P = Some p' \<and> rec_id r \<in> set (children p')
                \<and> take (length (children p)) (children p') = children p
                \<and> (distinct (children p) \<longrightarrow> distinct (children p')))
         \<and> get_by_id st' (rec_id r) = Some r
         \<and> store_append st' r = Inl DuplicateIdError"
proof -
  let ?p' = "add_child (rec_id r) p"
  have P': "get_by_id st' P = Some ?p'"
    using get_by_id_append_old [OF assms(3) assms(2)] assms(1) by simp
  have cs: "children ?p' = (if rec_id r \<in> set (children p) then children p
                            else children p @ [rec_id r])"
    by (simp add: add_child_def)
  have new: "get_by_id st' (rec_id r) = Some r"
    by (rule get_by_id_append_new [OF assms(3)])
  then have "rec_id r \<in> set (map fst st')"
    unfolding get_by_id_def by (metis map_of_eq_None_iff option.distinct(1) set_map)
  then have dup: "store_append st' r = Inl DuplicateIdError"
    by (simp add: store_append_def)
  have gc: "get_children st' P False = Inr (children ?p')"
    by (simp add: get_children_def P')
  have props: "rec_id r \<in> set (children ?p')"
    "take (length (children p)) (children ?p') = children p"
    "distinct (children p) \<longrightarrow> distinct (children ?p')"
    by (simp_all add: cs)
  show ?thesis
    using gc cs P' props new dup by simp
qed

theorem append_backlink_witness:
  "parents \<lparr>created_at = 1, rec_id = ''AAAAAAAB'', parents = [''AAAAAAAA''], children = [],
            raw_pair = (''i'', ''o''), compacted = [], detailed = []\<rparr> = [''AAAAAAAA'']
   \<and> get_by_id
        [(''AAAAAAAA'', \<lparr>created_at = 0, rec_id = ''AAAAAAAA'', parents = [], children = [''x''],
            raw_pair = (''i'', ''o''), compacted = [], detailed = []\<rparr>)] ''AAAAAAAA''
       = Some \<lparr>created_at = 0, rec_id = ''AAAAAAAA'', parents = [], children = [''x''],
            raw_pair = (''i'', ''o''), compacted = [], detailed = []\<rparr>
   \<and> store_append
        [(''AAAAAAAA'', \<lparr>created_at = 0, rec_id = ''AAAAAAAA'', parents = [], children = [''x''],
            raw_pair = (''i'', ''o''), compacted = [], detailed = []\<rparr>)]
        \<lparr>created_at = 1, rec_id = ''AAAAAAAB'', parents = [''AAAAAAAA''], children = [],
            raw_pair = (''i'', ''o''), compacted = [], detailed = []\<rparr>
       = Inr [(''AAAAAAAA'', \<lparr>created_at = 0, rec_id = ''AAAAAAAA'', parents = [],
                 children = [''x'', ''AAAAAAAB''],
                 raw_pair = (''i'', ''o''), compacted = [], detailed = []\<rparr>),
              (''AAAAAAAB'', \<lparr>created_at = 1, rec_id = ''AAAAAAAB'', parents = [''AAAAAAAA''],
                 children = [], raw_pair = (''i'', ''o''), compacted = [], detailed = []\<rparr>)]
   \<and> get_children
        [(''AAAAAAAA'', \<lparr>created_at = 0, rec_id = ''AAAAAAAA'', parents = [],
                 children = [''x'', ''AAAAAAAB''],
                 raw_pair = (''i'', ''o''), compacted = [], detailed = []\<rparr>),
              (''AAAAAAAB'', \<lparr>created_at = 1, rec_id = ''AAAAAAAB'', parents = [''AAAAAAAA''],
                 children = [], raw_pair = (''i'', ''o''), compacted = [], detailed = []\<rparr>)]
        ''AAAAAAAA'' False = Inr [''x'', ''AAAAAAAB'']"
proof -
  let ?p = "\<lparr>created_at = 0, rec_id = ''AAAAAAAA'', parents = [], children = [''x''],
            raw_pair = (''i'', ''o''), compacted = [], detailed = ([] :: model_message list)\<rparr>"
  let ?r = "\<lparr>created_at = 1, rec_id = ''AAAAAAAB'', parents = [''AAAAAAAA''], children = [],
            raw_pair = (''i'', ''o''), compacted = [], detailed = ([] :: model_message list)\<rparr>"
  let ?st' = "[(''AAAAAAAA'', ?p\<lparr>children := [''x'', ''AAAAAAAB'']\<rparr>), (''AAAAAAAB'', ?r)]"
  have h1: "parents ?r = [''AAAAAAAA'']" by simp
  have h2: "get_by_id [(''AAAAAAAA'', ?p)] ''AAAAAAAA'' = Some ?p" by (simp add: get_by_id_def)
  have h3: "store_append [(''AAAAAAAA'', ?p)] ?r = Inr ?st'"
    by (simp add: store_append_def add_child_def)
  show ?thesis
    using append_backlink [OF h1 h2 h3] h1 h2 h3 by simp
qed


section \<open>Properties of the neighbourhood traversal\<close>

subsection \<open>The inner loops keep the invariant and do not increase the measure\<close>

lemma finite_all_links: "finite (all_links index)"
  by (auto simp: all_links_def)

lemma neighbours_in_all_links:
  "load_record index x = Some rec \<Longrightarrow> set (neighbours rec) \<subseteq> all_links index"
  by (auto simp: load_record_def all_links_def dest!: map_of_SomeD)

lemma visit_Cons_skip:
  assumes "(\<exists>old. map_of depths nxt = Some old \<and> old \<le> Suc d) \<or> D < int (Suc d)"
  shows "visit D d (nxt # rest) (depths, q) = visit D d rest (depths, q)"
  using assms by (auto simp: Let_def)

lemma visit_Cons_push:
  assumes "\<forall>old. map_of depths nxt = Some old \<longrightarrow> Suc d < old" and "\<not> D < int (Suc d)"
  shows "visit D d (nxt # rest) (depths, q)
           = visit D d rest (AList.update nxt (Suc d) depths, q @ [nxt])"
  using assms by (auto simp: Let_def split: option.splits)

lemma potential_update:
  assumes "nxt \<in> all_links index" and "nd \<le> B"
    and "\<forall>old. map_of depths nxt = Some old \<longrightarrow> nd < old"
  shows "potential index B (AList.update nxt nd depths) < potential index B depths"
  unfolding potential_def
proof (rule sum_strict_mono_ex1 [OF finite_all_links])
  show "\<forall>x \<in> all_links index. weight B (AList.update nxt nd depths) x \<le> weight B depths x"
    using assms(2,3) by (auto simp: weight_def update_conv' split: option.splits)
  show "\<exists>a \<in> all_links index. weight B (AList.update nxt nd depths) a < weight B depths a"
    using assms by (intro bexI [of _ nxt]) (auto simp: weight_def update_conv' split: option.splits)
qed

lemma visit_measure:
  assumes "set nbrs \<subseteq> all_links index" and "visit D d nbrs (depths, q) = (depths', q')"
  shows "potential index (nat D) depths' + length q' \<le> potential index (nat D) depths + length q"
  using assms
proof (induction nbrs arbitrary: depths q)
  case Nil
  then show ?case by simp
next
  case (Cons nxt rest)
  show ?case
  proof (cases "(\<exists>old. map_of depths nxt = Some old \<and> old \<le> Suc d) \<or> D < int (Suc d)")
    case True
    have "visit D d rest (depths, q) = (depths', q')"
      using Cons.prems(2) by (simp only: visit_Cons_skip [OF True])
    then show ?thesis using Cons.IH Cons.prems(1) by simp
  next
    case False
    then have f: "\<forall>old. map_of depths nxt = Some old \<longrightarrow> Suc d < old" "\<not> D < int (Suc d)"
      by (auto simp: not_le)
    have v: "visit D d rest (AList.update nxt (Suc d) depths, q @ [nxt]) = (depths', q')"
      using Cons.prems(2) by (simp only: visit_Cons_push [OF f])
    have "Suc d \<le> nat D" using f(2) by linarith
    then have "potential index (nat D) (AList.update nxt (Suc d) depths)
                 < potential index (nat D) depths"
      using potential_update [of nxt index "Suc d" "nat D" depths] f(1) Cons.prems(1) by simp
    moreover have "potential index (nat D) depths' + length q'
        \<le> potential index (nat D) (AList.update nxt (Suc d) depths) + length (q @ [nxt])"
      using Cons.IH [OF _ v] Cons.prems(1) by simp
    ultimately show ?thesis by simp
  qed
qed

lemma sound_update:
  assumes s: "sound index D start depths q"
    and cur: "map_of depths cur = Some d" "int d < D" "load_record index cur = Some rec"
    and nxt: "nxt \<in> set (neighbours rec)"
      "\<forall>old. map_of depths nxt = Some old \<longrightarrow> Suc d < old"
  shows "sound index D start (AList.update nxt (Suc d) depths) (q @ [nxt])"
proof -
  have h: "hops index start d cur" using s cur(1) by (simp add: sound_def)
  have hn: "hops index start (Suc d) nxt" by (rule hops_Suc [OF h cur(3) nxt(1)])
  have ne: "nxt \<noteq> start" using s nxt(2) by (auto simp: sound_def)
  show ?thesis
    using s hn ne cur(2) unfolding sound_def
    by (auto simp: update_conv' distinct_update split: if_splits)
qed

lemma closed_at_update:
  assumes "closed_at index D depths x" and "x \<noteq> nxt"
    and "\<forall>old. map_of depths nxt = Some old \<longrightarrow> nd < old"
  shows "closed_at index D (AList.update nxt nd depths) x"
  unfolding closed_at_def
proof (intro allI impI, elim conjE)
  fix d rec z
  assume a: "map_of (AList.update nxt nd depths) x = Some d" "int d < D"
    "load_record index x = Some rec" "z \<in> set (neighbours rec)"
  then have "map_of depths x = Some d" using assms(2) by (simp add: update_conv')
  then obtain d' where d': "map_of depths z = Some d'" "d' \<le> d + 1"
    using assms(1) a unfolding closed_at_def by blast
  show "\<exists>d'. map_of (AList.update nxt nd depths) z = Some d' \<and> d' \<le> d + 1"
  proof (cases "z = nxt")
    case True
    then show ?thesis using d' assms(3) by (auto simp: update_conv')
  next
    case False
    then show ?thesis using d' by (simp add: update_conv')
  qed
qed

lemma visit_inv:
  assumes "sound index D start depths q"
    and "\<forall>x. x \<notin> set q \<and> x \<noteq> cur \<longrightarrow> closed_at index D depths x"
    and "map_of depths cur = Some d" and "int d < D" and "load_record index cur = Some rec"
    and "set nbrs \<subseteq> set (neighbours rec)"
    and "\<forall>z \<in> seen. \<exists>d'. map_of depths z = Some d' \<and> d' \<le> Suc d"
    and "visit D d nbrs (depths, q) = (depths', q')"
  shows "sound index D start depths' q'
         \<and> (\<forall>x. x \<notin> set q' \<and> x \<noteq> cur \<longrightarrow> closed_at index D depths' x)
         \<and> map_of depths' cur = Some d
         \<and> (\<forall>z \<in> seen \<union> set nbrs. \<exists>d'. map_of depths' z = Some d' \<and> d' \<le> Suc d)"
  using assms
proof (induction nbrs arbitrary: depths q seen)
  case Nil
  then show ?case by simp
next
  case (Cons nxt rest)
  have rest: "set rest \<subseteq> set (neighbours rec)" and nin: "nxt \<in> set (neighbours rec)"
    using Cons.prems(6) by simp_all
  have nb: "\<not> D < int (Suc d)" using Cons.prems(4) by simp
  show ?case
  proof (cases "\<exists>old. map_of depths nxt = Some old \<and> old \<le> Suc d")
    case True
    then have v: "visit D d rest (depths, q) = (depths', q')"
      using Cons.prems(8) by (simp only: visit_Cons_skip [OF disjI1 [OF True]])
    have seen': "\<forall>z \<in> insert nxt seen. \<exists>d'. map_of depths z = Some d' \<and> d' \<le> Suc d"
      using True Cons.prems(7) by auto
    show ?thesis
      using Cons.IH [OF Cons.prems(1) Cons.prems(2) Cons.prems(3) Cons.prems(4) Cons.prems(5)
          rest seen' v]
      by simp
  next
    case False
    then have f: "\<forall>old. map_of depths nxt = Some old \<longrightarrow> Suc d < old"
      by (auto simp: not_le)
    let ?depths = "AList.update nxt (Suc d) depths"
    have v: "visit D d rest (?depths, q @ [nxt]) = (depths', q')"
      using Cons.prems(8) by (simp only: visit_Cons_push [OF f nb])
    have ne: "nxt \<noteq> cur" using f Cons.prems(3) by auto
    have s: "sound index D start ?depths (q @ [nxt])"
      by (rule sound_update [OF Cons.prems(1) Cons.prems(3) Cons.prems(4) Cons.prems(5) nin f])
    have c: "\<forall>x. x \<notin> set (q @ [nxt]) \<and> x \<noteq> cur \<longrightarrow> closed_at index D ?depths x"
      using Cons.prems(2) f by (auto intro!: closed_at_update)
    have m: "map_of ?depths cur = Some d"
      using Cons.prems(3) ne by (simp add: update_conv')
    have seen': "\<forall>z \<in> insert nxt seen. \<exists>d'. map_of ?depths z = Some d' \<and> d' \<le> Suc d"
      using Cons.prems(7) f by (auto simp: update_conv')
    show ?thesis
      using Cons.IH [OF s c m Cons.prems(4) Cons.prems(5) rest seen' v]
      by simp
  qed
qed

subsection \<open>The traversal terminates with the ids within the bound\<close>

lemma related_loop_Nil: "related_loop index D depths [] = Some (Inr depths)"
  by (subst related_loop.simps) simp

lemma related_loop_skip:
  assumes "map_of depths cur = Some d" and "int d = D \<or> load_record index cur = None"
  shows "related_loop index D depths (cur # q') = related_loop index D depths q'"
  using assms by (subst related_loop.simps) auto

lemma related_loop_expand:
  assumes "map_of depths cur = Some d" and "int d \<noteq> D" and "load_record index cur = Some rec"
    and "visit D d (neighbours rec) (depths, q') = (depths', q'')"
  shows "related_loop index D depths (cur # q') = related_loop index D depths' q''"
  using assms by (subst related_loop.simps) simp

lemma related_loop_correct:
  assumes "loop_inv index D start depths q"
  shows "\<exists>r. related_loop index D depths q = Some (Inr r) \<and> loop_inv index D start r []"
  using assms
proof (induction "potential index (nat D) depths + length q" arbitrary: depths q rule: less_induct)
  case less
  show ?case
  proof (cases q)
    case Nil
    then show ?thesis using less.prems by (auto simp: related_loop_Nil)
  next
    case (Cons cur q')
    have s: "sound index D start depths q"
      and c: "\<forall>x. x \<notin> set q \<longrightarrow> closed_at index D depths x"
      using less.prems by (simp_all add: loop_inv_def)
    obtain d where d: "map_of depths cur = Some d"
      using s Cons by (auto simp: sound_def)
    have dD: "int d \<le> D" using s d by (simp add: sound_def)
    have s': "sound index D start depths q'"
      using s Cons by (auto simp: sound_def)
    have c': "\<forall>x. x \<notin> set q' \<and> x \<noteq> cur \<longrightarrow> closed_at index D depths x"
      using c Cons by simp
    show ?thesis
    proof (cases "int d = D \<or> load_record index cur = None")
      case True
      have "closed_at index D depths cur"
        using True d by (auto simp: closed_at_def)
      then have inv': "loop_inv index D start depths q'"
        using s' c' by (auto simp: loop_inv_def)
      have m: "potential index (nat D) depths + length q'
                 < potential index (nat D) depths + length q"
        using Cons by simp
      show ?thesis
        using less.hyps [OF m inv'] related_loop_skip [OF d True] Cons by simp
    next
      case False
      then obtain rec where rec: "load_record index cur = Some rec" and ne: "int d \<noteq> D"
        by auto
      have lt: "int d < D" using dD ne by simp
      obtain depths' q'' where v: "visit D d (neighbours rec) (depths, q') = (depths', q'')"
        by (cases "visit D d (neighbours rec) (depths, q')") simp
      have e: "\<forall>z \<in> {}. \<exists>d'. map_of depths z = Some d' \<and> d' \<le> Suc d" by simp
      have post: "sound index D start depths' q''"
        "\<forall>x. x \<notin> set q'' \<and> x \<noteq> cur \<longrightarrow> closed_at index D depths' x"
        "map_of depths' cur = Some d"
        "\<forall>z \<in> set (neighbours rec). \<exists>d'. map_of depths' z = Some d' \<and> d' \<le> Suc d"
        using visit_inv [OF s' c' d lt rec subset_refl e v] by simp_all
      have "closed_at index D depths' cur"
        using post(3,4) rec by (auto simp: closed_at_def)
      then have inv': "loop_inv index D start depths' q''"
        using post(1,2) by (auto simp: loop_inv_def)
      have "potential index (nat D) depths' + length q''
              \<le> potential index (nat D) depths + length q'"
        by (rule visit_measure [OF neighbours_in_all_links [OF rec] v])
      then have m: "potential index (nat D) depths' + length q''
                 < potential index (nat D) depths + length q"
        using Cons by simp
      show ?thesis
        using less.hyps [OF m inv'] related_loop_expand [OF d ne rec v] Cons by simp
    qed
  qed
qed

lemma loop_inv_init:
  assumes "0 \<le> D"
  shows "loop_inv index D start [(start, 0)] [start]"
  using assms by (auto simp: loop_inv_def sound_def closed_at_def hops_0)

lemma closed_reach:
  assumes "loop_inv index D start r []" and "hops index start n y" and "int n \<le> D"
  shows "\<exists>d. map_of r y = Some d \<and> d \<le> n"
  using assms(2,3)
proof (induction rule: hops.induct)
  case hops_0
  then show ?case using assms(1) by (simp add: loop_inv_def sound_def)
next
  case (hops_Suc n y rec z)
  then obtain d where d: "map_of r y = Some d" "d \<le> n" by auto
  have "closed_at index D r y" using assms(1) by (simp add: loop_inv_def)
  moreover have "int d < D" using d(2) hops_Suc.prems by simp
  ultimately obtain d' where "map_of r z = Some d'" "d' \<le> d + 1"
    using d(1) hops_Suc.hyps(2,3) unfolding closed_at_def by blast
  then show ?case using d(2) by auto
qed

lemma related_correct:
  assumes "0 \<le> D"
  shows "\<exists>r. related index start D = Some (Inr r)
           \<and> distinct (map fst r) \<and> map_of r start = Some 0
           \<and> set (map fst r) = reachable_within index D start
           \<and> (\<forall>y d. map_of r y = Some d \<longrightarrow>
                 hops index start d y \<and> (\<forall>n. hops index start n y \<longrightarrow> d \<le> n))"
proof -
  obtain r where r: "related index start D = Some (Inr r)" and inv: "loop_inv index D start r []"
    using related_loop_correct [OF loop_inv_init [OF assms]] unfolding related_def by blast
  have s: "sound index D start r []" using inv by (simp add: loop_inv_def)
  have least: "d \<le> n" if "map_of r y = Some d" "hops index start n y" for y d n
  proof (cases "int n \<le> D")
    case True
    then show ?thesis using closed_reach [OF inv that(2)] that(1) by auto
  next
    case False
    moreover have "int d \<le> D" using s that(1) by (simp add: sound_def)
    ultimately show ?thesis by simp
  qed
  have "set (map fst r) = dom (map_of r)" by (simp add: dom_map_of_conv_image_fst)
  also have "\<dots> = reachable_within index D start"
  proof (intro set_eqI iffI)
    fix y assume "y \<in> dom (map_of r)"
    then show "y \<in> reachable_within index D start"
      using s by (auto simp: sound_def reachable_within_def)
  next
    fix y assume "y \<in> reachable_within index D start"
    then show "y \<in> dom (map_of r)"
      using closed_reach [OF inv] by (auto simp: reachable_within_def)
  qed
  finally have keys: "set (map fst r) = reachable_within index D start" .
  show ?thesis
    using r s keys least by (auto simp: sound_def)
qed

lemma map_fst_printed:
  "map fst (concat (map (\<lambda>mid. case load_record index mid of None \<Rightarrow> []
                                 | Some rec \<Rightarrow> [(mid, rec)]) xs))
     = filter (\<lambda>mid. load_record index mid \<noteq> None) xs"
  by (induction xs) (auto split: option.splits)

lemma set_printed:
  "(mid, rec) \<in> set (printed index depths) \<Longrightarrow> load_record index mid = Some rec"
  by (auto simp: printed_def split: option.splits)

lemma chain_related:
  "related chain_index ''B'' 1 = Some (Inr [(''B'', 0), (''A'', 1), (''C'', 1)])"
  unfolding related_def
  by (simp add: related_loop.simps chain_index_def link_record_def load_record_def neighbours_def)

lemma chain_main:
  "neighborhood_main chain_index ''B'' 1
     = Some (Inr [(''A'', link_record ''A'' [] [''B'']), (''B'', link_record ''B'' [''A''] [''C'']),
                  (''C'', link_record ''C'' [''B''] [''D''])])"
proof -
  have "sort [''B'', ''A'', ''C''] = [''A'', ''B'', ''C'']" by simp
  then have "printed chain_index [(''B'', 0), (''A'', 1), (''C'', 1)]
     = [(''A'', link_record ''A'' [] [''B'']), (''B'', link_record ''B'' [''A''] [''C'']),
        (''C'', link_record ''C'' [''B''] [''D''])]"
    by (simp add: printed_def chain_index_def load_record_def)
  then show ?thesis
    by (simp add: neighborhood_main_def chain_related)
qed

lemma empty_main: "neighborhood_main [] ''B'' 1 = Some (Inr [])"
proof -
  have "related [] ''B'' 1 = Some (Inr [(''B'', 0)])"
    unfolding related_def by (simp add: related_loop.simps load_record_def)
  then show ?thesis
    by (simp add: neighborhood_main_def printed_def load_record_def)
qed

text \<open>
  Claim C6, as amended. For every index, start id and depth bound \<open>D \<ge> 0\<close>, the traversal
  terminates and discovers exactly the ids reachable from the start in at most \<open>D\<close> hops,
  each hop leading from a record that the index can load to an id among its parents or
  children; the start has depth 0 and is always discovered. The tool prints, sorted by id and
  without repetition, the discovered ids that the index can load: an id without a record,
  the start included, is discovered but not printed. Over the chain \<open>A\<close>, \<open>B\<close>, \<open>C\<close>, \<open>D\<close> with
  bound 1 from \<open>B\<close> it prints \<open>A\<close>, \<open>B\<close>, \<open>C\<close>.
\<close>

theorem neighborhood_output:
  assumes "0 \<le> D"
  shows "(\<exists>depths out.
            related index start D = Some (Inr depths)
            \<and> neighborhood_main index start D = Some (Inr out)
            \<and> map_of depths start = Some 0
            \<and> set (map fst depths) = reachable_within index D start
            \<and> sorted (map fst out) \<and> distinct (map fst out)
            \<and> set (map fst out)
                = {y \<in> reachable_within index D start. load_record index y \<noteq> None})
         \<and> neighborhood_main chain_index ''B'' 1
             = Some (Inr [(''A'', link_record ''A'' [] [''B'']),
                          (''B'', link_record ''B'' [''A''] [''C'']),
                          (''C'', link_record ''C'' [''B''] [''D''])])"
proof -
  obtain r where r: "related index start D = Some (Inr r)"
    and dist: "distinct (map fst r)" and st: "map_of r start = Some 0"
    and keys: "set (map fst r) = reachable_within index D start"
    using related_correct [OF assms, of index start] by blast
  let ?out = "printed index r"
  have ids: "map fst ?out = filter (\<lambda>mid. load_record index mid \<noteq> None) (sort (map fst r))"
    by (simp add: printed_def map_fst_printed)
  have m: "neighborhood_main index start D = Some (Inr ?out)"
    by (simp add: neighborhood_main_def r)
  have "sorted (map fst ?out)" unfolding ids by (rule sorted_wrt_filter) simp
  moreover have "distinct (map fst ?out)" using dist by (simp add: ids)
  moreover have "set (map fst ?out)
      = {y \<in> reachable_within index D start. load_record index y \<noteq> None}"
    using keys by (auto simp: ids)
  ultimately show ?thesis
    using r m st keys chain_main by blast
qed

theorem neighborhood_output_witness:
  "(0::int) \<le> 1
   \<and> (\<exists>depths out.
            related chain_index ''B'' 1 = Some (Inr depths)
            \<and> neighborhood_main chain_index ''B'' 1 = Some (Inr out)
            \<and> map_of depths ''B'' = Some 0
            \<and> set (map fst depths) = reachable_within chain_index 1 ''B''
            \<and> sorted (map fst out) \<and> distinct (map fst out)
            \<and> set (map fst out)
                = {y \<in> reachable_within chain_index 1 ''B''. load_record chain_index y \<noteq> None})"
proof -
  have h: "(0::int) \<le> 1" by simp
  show ?thesis
    using neighborhood_output [OF h, of chain_index "''B''"] h by blast
qed

text \<open>
  Claim C6, as stated, fails for a start id that the index cannot load: the start is within
  zero hops of itself, and yet nothing is printed.
\<close>

theorem neighborhood_start_counterexample:
  "''B'' \<in> reachable_within [] 1 ''B'' \<and> neighborhood_main [] ''B'' 1 = Some (Inr [])"
proof -
  have "int 0 \<le> 1 \<and> hops [] ''B'' 0 ''B''" by (simp add: hops_0)
  then have "''B'' \<in> reachable_within [] 1 ''B''"
    unfolding reachable_within_def by blast
  then show ?thesis by (simp add: empty_main)
qed


section \<open>Properties of the migration\<close>

subsection \<open>The example directory\<close>

lemma example_run1:
  "migrate_record_file example_fs0 (example_root, ''X.json'') False False False
     = Inr (True, example_fs1)"
  by code_simp

lemma example_iter1:
  "iter_record_files example_fs1 example_root = [(example_root, ''X.core.json'')]"
  by code_simp

lemma example_run2:
  "migrate_record_file example_fs1 (example_root, ''X.core.json'') False False False
     = Inr (True, example_fs2)"
  by code_simp

lemma example_main1:
  "migrate_main example_fs0 example_root False False False = Inr (example_fs1, 1, 0, 0)"
  by code_simp

lemma example_main2:
  "migrate_main example_fs1 example_root False False False = Inr (example_fs2, 1, 0, 0)"
  by code_simp

lemma example_detailed_differs:
  "read_text example_fs2 (example_root, ''X.detailed.jsonl'')
     \<noteq> read_text example_fs1 (example_root, ''X.detailed.jsonl'')"
  by code_simp

lemma example_run3:
  "migrate_record_file example_fs2 (example_root, ''X.core.json'') False True False
     = Inr (False, example_fs2)"
  by code_simp

lemma example_main3:
  "migrate_main example_fs2 example_root False True False = Inr (example_fs2, 0, 1, 0)"
  by code_simp

lemma example_uptodate:
  "read_text example_fs2 (example_root, ''X.core.json'') = Inr example_core_text
   \<and> read_text example_fs2 (example_root, ''X.detailed.jsonl'')
       = Inr (detailed_text_of (detail_lines_of ''hi'' ''ok'' []))"
  by code_simp

text \<open>
  Claim C1 says that a second run of the migration over the directory that a first run left
  reports no change and generates the same two files again. The code does not do that on
  the example record, whose tool call has an argument with the code point 133: the first
  run writes the three detail lines, joined by line feeds, and \<^verbatim>\<open>json.dumps\<close> leaves the
  code point 133 as it is; the second run reads the lines back with \<^verbatim>\<open>splitlines\<close>, which
  also ends a line at the code point 133, so the third line no longer decodes, the tool
  calls are taken to be none, and the run reports a change and rewrites
  \<^verbatim>\<open>X.detailed.jsonl\<close> with other content.
\<close>

theorem second_migration_changes:
  "migrate_main example_fs0 example_root False False False = Inr (example_fs1, 1, 0, 0)
   \<and> migrate_main example_fs1 example_root False False False = Inr (example_fs2, 1, 0, 0)
   \<and> read_text example_fs2 (example_root, ''X.detailed.jsonl'')
       \<noteq> read_text example_fs1 (example_root, ''X.detailed.jsonl'')"
  using example_main1 example_main2 example_detailed_differs by blast

theorem second_migration_changes_witness:
  "migrate_main example_fs1 example_root False False False = Inr (example_fs2, 1, 0, 0)"
  using second_migration_changes by blast

text \<open>
  Claim C8 says that with the force flag the canonical files are rewritten even when they
  hold the generated content already. The code never reads the flag: every call returns
  what it returns without it, and on the migrated example, whose two files are up to date,
  the call with \<open>force = True\<close> and \<open>dry_run = False\<close> returns \<open>False\<close> from line 291, before
  any write, and the run counts the file as skipped.
\<close>

theorem force_flag_ignored:
  "migrate_record_file files p dlc True dry_run = migrate_record_file files p dlc False dry_run
   \<and> read_text example_fs2 (example_root, ''X.core.json'') = Inr example_core_text
   \<and> read_text example_fs2 (example_root, ''X.detailed.jsonl'')
       = Inr (detailed_text_of (detail_lines_of ''hi'' ''ok'' []))
   \<and> migrate_record_file example_fs2 (example_root, ''X.core.json'') False True False
       = Inr (False, example_fs2)
   \<and> migrate_main example_fs2 example_root False True False = Inr (example_fs2, 0, 1, 0)"
proof -
  have "migrate_record_file files p dlc True dry_run
          = migrate_record_file files p dlc False dry_run"
    by (simp only: migrate_record_file_def)
  then show ?thesis
    using example_uptodate example_run3 example_main3 by blast
qed

theorem force_flag_ignored_witness:
  "migrate_record_file example_fs2 (example_root, ''X.core.json'') False True False
     = migrate_record_file example_fs2 (example_root, ''X.core.json'') False False False
   \<and> migrate_record_file example_fs2 (example_root, ''X.core.json'') False True False
       = Inr (False, example_fs2)"
  using force_flag_ignored [of example_fs2 "(example_root, ''X.core.json'')" False False]
  by blast

subsection \<open>The generated texts hold no line end\<close>

declare show_nat.simps [simp del]














subsection \<open>Paths, writes and deletions\<close>

lemma record_id_cases:
  assumes "record_id_from_path p = Inr rid"
  shows "(suffix ''.core.json'' (snd p) \<and> snd p = rid @ ''.core.json'')
         \<or> (\<not> suffix ''.core.json'' (snd p) \<and> snd p = rid @ ''.json'')"
proof (cases "suffix ''.core.json'' (snd p)")
  case True
  then obtain zs where zs: "snd p = zs @ ''.core.json''" by (auto simp: suffix_def)
  have t: "take (length (snd p) - length ''.core.json'') (snd p) = zs" by (simp add: zs)
  show ?thesis
    using assms True t zs by (simp add: record_id_from_path_def Let_def)
next
  case False
  then have s: "suffix ''.json'' (snd p)"
    using assms by (auto simp: record_id_from_path_def Let_def split: if_splits)
  then obtain zs where zs: "snd p = zs @ ''.json''" by (auto simp: suffix_def)
  have t: "take (length (snd p) - length ''.json'') (snd p) = zs" by (simp add: zs)
  show ?thesis
    using assms False s t zs by (simp add: record_id_from_path_def Let_def)
qed


lemma paths_for_record_path:
  assumes "record_id_from_path p = Inr rid"
  shows "core_path_for_record_path p = Inr (with_name p (rid @ ''.core.json''))"
    and "detailed_path_for_record_path p = Inr (with_name p (rid @ ''.detailed.jsonl''))"
    and "legacy_detailed_path_for_record_path p = Inr (with_name p (rid @ ''.detailed.json''))"
    and "legacy_compacted_path_for_record_path p = Inr (with_name p (rid @ ''.compacted.json''))"
  using assms
  by (simp_all add: core_path_for_record_path_def detailed_path_for_record_path_def
      legacy_detailed_path_for_record_path_def legacy_compacted_path_for_record_path_def)

lemma paths_error:
  assumes "record_id_from_path p = Inl e"
  shows "core_path_for_record_path p = Inl e"
  using assms by (simp add: core_path_for_record_path_def)

lemma four_paths_distinct:
  "distinct [with_name p (rid @ ''.core.json''), with_name p (rid @ ''.detailed.jsonl''),
             with_name p (rid @ ''.detailed.json''), with_name p (rid @ ''.compacted.json'')]"
  by (simp add: with_name_def)

lemma legacy_not_among:
  assumes "snd p = rid @ ''.json''"
  shows "p \<notin> {with_name p (rid @ ''.core.json''), with_name p (rid @ ''.detailed.jsonl''),
               with_name p (rid @ ''.detailed.json''), with_name p (rid @ ''.compacted.json'')}"
proof -
  have n: "snd p = n" if "p = with_name p n" for n
    using that by (metis with_name_def snd_conv)
  have "snd p \<notin> {rid @ ''.core.json'', rid @ ''.detailed.jsonl'', rid @ ''.detailed.json'',
                  rid @ ''.compacted.json''}"
    by (simp add: assms)
  then show ?thesis using n by blast
qed

lemma map_of_atomic_write:
  "map_of (atomic_write_text files q t) = (map_of files)(q \<mapsto> t)"
  by (simp add: atomic_write_text_def update_conv')

lemma map_of_unlink_if:
  "map_of (if exists files q then unlink files q else files) = (map_of files)(q := None)"
  by (auto simp: exists_def unlink_def delete_conv')

lemma map_of_write_out_fun:
  "map_of (write_out files c ct d dt ld lc dlc) =
     (if dlc
      then (if dt \<noteq> [] then ((map_of files)(c \<mapsto> ct, d \<mapsto> dt))(ld := None, lc := None)
            else ((map_of files)(c \<mapsto> ct))(lc := None))
      else (if dt \<noteq> [] then ((map_of files)(c \<mapsto> ct, d \<mapsto> dt))(ld := None)
            else (map_of files)(c \<mapsto> ct)))"
proof -
  let ?f1 = "atomic_write_text files c ct"
  let ?f' = "atomic_write_text ?f1 d dt"
  let ?f2 = "if dt \<noteq> [] then (if exists ?f' ld then unlink ?f' ld else ?f') else ?f1"
  have wT: "write_out files c ct d dt ld lc True
              = (if exists ?f2 lc then unlink ?f2 lc else ?f2)"
    by (simp add: write_out_def Let_def)
  have wF: "write_out files c ct d dt ld lc False = ?f2"
    by (simp add: write_out_def Let_def)
  have m2: "map_of ?f2 = (if dt \<noteq> [] then ((map_of files)(c \<mapsto> ct, d \<mapsto> dt))(ld := None)
                          else (map_of files)(c \<mapsto> ct))"
  proof (cases "dt = []")
    case True
    then show ?thesis by (simp add: map_of_atomic_write)
  next
    case False
    then have "?f2 = (if exists ?f' ld then unlink ?f' ld else ?f')" by simp
    then have "map_of ?f2 = (map_of ?f')(ld := None)" by (simp only: map_of_unlink_if)
    then show ?thesis using False by (simp add: map_of_atomic_write)
  qed
  show ?thesis
  proof (cases dlc)
    case True
    have "map_of (write_out files c ct d dt ld lc True) = (map_of ?f2)(lc := None)"
      by (simp only: wT map_of_unlink_if)
    then show ?thesis using True by (simp only: m2) simp
  next
    case False
    have "map_of (write_out files c ct d dt ld lc False) = map_of ?f2"
      by (simp only: wF)
    then show ?thesis using False by (simp only: m2) simp
  qed
qed

lemma map_of_write_out:
  assumes "distinct [c, d, ld, lc]"
  shows "map_of (write_out files c ct d dt ld lc dlc) q =
     (if q = lc \<and> dlc then None
      else if dt \<noteq> [] \<and> q = ld then None
      else if dt \<noteq> [] \<and> q = d then Some dt
      else if q = c then Some ct
      else map_of files q)"
  using assms by (simp add: map_of_write_out_fun)



lemma migrate_record_file_eq:
  assumes "read_text files p = Inr raw" and "loads raw = Inr (JObj rcd)"
    and "record_id_from_path p = Inr rid"
    and "str_field rcd ''input'' = Inr iv" and "str_field rcd ''output'' = Inr ov"
    and "resolve_compacted files (with_name p (rid @ ''.compacted.json'')) rcd = Inr cpl"
    and "resolve_detail_lines files (with_name p (rid @ ''.detailed.json''))
           (with_name p (rid @ ''.detailed.jsonl'')) rcd iv ov = Inr lines"
  shows "migrate_record_file files p dlc force dry =
     Inr (compute_changed files (with_name p (rid @ ''.core.json'')) (core_text_of rcd cpl)
            (with_name p (rid @ ''.detailed.jsonl'')) (detailed_text_of lines),
          if dry \<or> \<not> compute_changed files (with_name p (rid @ ''.core.json''))
                        (core_text_of rcd cpl)
                        (with_name p (rid @ ''.detailed.jsonl'')) (detailed_text_of lines)
          then files
          else write_out files (with_name p (rid @ ''.core.json'')) (core_text_of rcd cpl)
                 (with_name p (rid @ ''.detailed.jsonl'')) (detailed_text_of lines)
                 (with_name p (rid @ ''.detailed.json'')) (with_name p (rid @ ''.compacted.json''))
                 dlc)"
  by (simp add: migrate_record_file_def assms paths_for_record_path [OF assms(3)] Let_def)

lemma migrate_record_file_InrE:
  assumes "migrate_record_file files p dlc force dry = Inr (flag, files')"
  obtains raw rcd rid iv ov cpl lines where
    "read_text files p = Inr raw" and "loads raw = Inr (JObj rcd)"
    and "record_id_from_path p = Inr rid"
    and "str_field rcd ''input'' = Inr iv" and "str_field rcd ''output'' = Inr ov"
    and "resolve_compacted files (with_name p (rid @ ''.compacted.json'')) rcd = Inr cpl"
    and "resolve_detail_lines files (with_name p (rid @ ''.detailed.json''))
           (with_name p (rid @ ''.detailed.jsonl'')) rcd iv ov = Inr lines"
proof -
  obtain raw where raw: "read_text files p = Inr raw"
    using assms by (cases "read_text files p") (simp_all add: migrate_record_file_def)
  obtain rcd where rec: "loads raw = Inr (JObj rcd)"
    using assms raw
    by (cases "loads raw") (auto simp: migrate_record_file_def split: json.splits)
  obtain rid where rid: "record_id_from_path p = Inr rid"
    using assms raw rec
    by (cases "record_id_from_path p") (simp_all add: migrate_record_file_def paths_error)
  note ps = paths_for_record_path [OF rid]
  obtain iv where iv: "str_field rcd ''input'' = Inr iv"
    using assms raw rec
    by (cases "str_field rcd ''input''") (simp_all add: migrate_record_file_def ps)
  obtain ov where ov: "str_field rcd ''output'' = Inr ov"
    using assms raw rec iv
    by (cases "str_field rcd ''output''") (simp_all add: migrate_record_file_def ps)
  obtain cpl where cpl:
    "resolve_compacted files (with_name p (rid @ ''.compacted.json'')) rcd = Inr cpl"
    using assms raw rec iv ov
    by (cases "resolve_compacted files (with_name p (rid @ ''.compacted.json'')) rcd")
       (simp_all add: migrate_record_file_def ps)
  obtain lines where lines:
    "resolve_detail_lines files (with_name p (rid @ ''.detailed.json''))
           (with_name p (rid @ ''.detailed.jsonl'')) rcd iv ov = Inr lines"
    using assms raw rec iv ov cpl
    by (cases "resolve_detail_lines files (with_name p (rid @ ''.detailed.json''))
           (with_name p (rid @ ''.detailed.jsonl'')) rcd iv ov")
       (simp_all add: migrate_record_file_def ps)
  show thesis
    by (rule that [OF raw rec rid iv ov cpl lines])
qed

subsection \<open>The record with a sidecar\<close>













lemma example_sidecar_run:
  "migrate_record_file example_sidecar_fs (example_root, ''X.json'') True False False
     = Inr (True, example_sidecar_fs1)"
  by code_simp

lemma example_sidecar_legacy_name: "\<not> suffix ''.core.json'' (snd (example_root, ''X.json''))"
  by (simp add: suffix_to_prefix)





subsection \<open>The files a call touches\<close>

text \<open>
  Claim C10: the effect of \<^verbatim>\<open>migrate_record_file\<close> on the files. Whenever the call returns
  (flag \<open>flag\<close>, file system \<open>files'\<close>), the record id of the path is defined and
  \<^item> with \<open>dry_run\<close>, or when the flag is \<open>False\<close> (no change detected), the file system is
    the one before the call: nothing is created, modified or deleted;
  \<^item> a legacy input \<^verbatim>\<open><id>.json\<close> (a name that does not end in \<^verbatim>\<open>.core.json\<close>) holds after
    the call what it held before: it is neither deleted nor rewritten;
  \<^item> every path whose content differs after the call is one of \<^verbatim>\<open><id>.core.json\<close>,
    \<^verbatim>\<open><id>.detailed.jsonl\<close>, \<^verbatim>\<open><id>.detailed.json\<close>, \<^verbatim>\<open><id>.compacted.json\<close> beside the input;
  \<^item> every file that exists before and not after is \<^verbatim>\<open><id>.detailed.json\<close>, and then a
    non-empty \<^verbatim>\<open><id>.detailed.jsonl\<close> is there after the call, or it is
    \<^verbatim>\<open><id>.compacted.json\<close>, and then \<open>delete_legacy_compacted\<close> was set, the flag is \<open>True\<close>
    and the call was no dry run.

  The errors of the model are all raised before line 293, the first write.
\<close>

theorem migrate_frame:
  assumes "migrate_record_file files p dlc force dry_run = Inr (flag, files')"
  shows "\<exists>rid. record_id_from_path p = Inr rid
     \<and> (dry_run \<or> \<not> flag \<longrightarrow> files' = files)
     \<and> (\<not> suffix ''.core.json'' (snd p) \<longrightarrow> map_of files' p = map_of files p)
     \<and> (\<forall>q. map_of files' q \<noteq> map_of files q \<longrightarrow>
            q = with_name p (rid @ ''.core.json'') \<or> q = with_name p (rid @ ''.detailed.jsonl'')
            \<or> q = with_name p (rid @ ''.detailed.json'')
            \<or> q = with_name p (rid @ ''.compacted.json''))
     \<and> (\<forall>q. map_of files q \<noteq> None \<and> map_of files' q = None \<longrightarrow>
            (q = with_name p (rid @ ''.detailed.json'')
             \<and> (\<exists>t. t \<noteq> [] \<and> map_of files' (with_name p (rid @ ''.detailed.jsonl'')) = Some t))
            \<or> (q = with_name p (rid @ ''.compacted.json'') \<and> dlc \<and> flag \<and> \<not> dry_run))"
proof -
  from assms obtain raw rcd rid iv ov cpl lines where
    raw: "read_text files p = Inr raw" and rcd: "loads raw = Inr (JObj rcd)"
    and rid: "record_id_from_path p = Inr rid"
    and iv: "str_field rcd ''input'' = Inr iv" and ov: "str_field rcd ''output'' = Inr ov"
    and cpl: "resolve_compacted files (with_name p (rid @ ''.compacted.json'')) rcd = Inr cpl"
    and lines: "resolve_detail_lines files (with_name p (rid @ ''.detailed.json''))
           (with_name p (rid @ ''.detailed.jsonl'')) rcd iv ov = Inr lines"
    by (rule migrate_record_file_InrE)
  define c where "c = with_name p (rid @ ''.core.json'')"
  define d where "d = with_name p (rid @ ''.detailed.jsonl'')"
  define ld where "ld = with_name p (rid @ ''.detailed.json'')"
  define lc where "lc = with_name p (rid @ ''.compacted.json'')"
  define ct where "ct = core_text_of rcd cpl"
  define dt where "dt = detailed_text_of lines"
  define W where "W = write_out files c ct d dt ld lc dlc"
  have eq: "migrate_record_file files p dlc force dry_run =
      Inr (compute_changed files c ct d dt,
           if dry_run \<or> \<not> compute_changed files c ct d dt then files else W)"
    unfolding c_def d_def ld_def lc_def ct_def dt_def W_def
    by (rule migrate_record_file_eq [OF raw rcd rid iv ov cpl lines])
  have pair: "(flag, files') = (compute_changed files c ct d dt,
           if dry_run \<or> \<not> compute_changed files c ct d dt then files else W)"
    using assms eq by (metis sum.inject(2))
  have flag: "flag = compute_changed files c ct d dt"
    using pair by (rule Pair_inject)
  have files': "files' = (if dry_run \<or> \<not> flag then files else W)"
    unfolding flag using pair by (rule Pair_inject)
  have dist: "distinct [c, d, ld, lc]"
    unfolding c_def d_def ld_def lc_def by (rule four_paths_distinct)
  have mW: "map_of W q =
     (if q = lc \<and> dlc then None
      else if dt \<noteq> [] \<and> q = ld then None
      else if dt \<noteq> [] \<and> q = d then Some dt
      else if q = c then Some ct
      else map_of files q)" for q
    unfolding W_def by (rule map_of_write_out [OF dist])
  have 1: "dry_run \<or> \<not> flag \<longrightarrow> files' = files"
    using files' by simp
  have 2: "\<not> suffix ''.core.json'' (snd p) \<longrightarrow> map_of files' p = map_of files p"
  proof
    assume "\<not> suffix ''.core.json'' (snd p)"
    then have "snd p = rid @ ''.json''" using record_id_cases [OF rid] by blast
    then have "p \<notin> {c, d, ld, lc}"
      unfolding c_def d_def ld_def lc_def by (rule legacy_not_among)
    then have "map_of W p = map_of files p" by (simp add: mW)
    then show "map_of files' p = map_of files p" using files' by simp
  qed
  have 3: "\<forall>q. map_of files' q \<noteq> map_of files q \<longrightarrow> q = c \<or> q = d \<or> q = ld \<or> q = lc"
  proof (intro allI impI)
    fix q assume a: "map_of files' q \<noteq> map_of files q"
    then have "files' = W" using files' by (auto split: if_splits)
    then have "map_of W q \<noteq> map_of files q" using a by simp
    then show "q = c \<or> q = d \<or> q = ld \<or> q = lc"
      by (simp add: mW split: if_splits)
  qed
  have 4: "\<forall>q. map_of files q \<noteq> None \<and> map_of files' q = None \<longrightarrow>
            (q = ld \<and> (\<exists>t. t \<noteq> [] \<and> map_of files' d = Some t))
            \<or> (q = lc \<and> dlc \<and> flag \<and> \<not> dry_run)"
  proof (intro allI impI)
    fix q assume a: "map_of files q \<noteq> None \<and> map_of files' q = None"
    then have w: "files' = W" and fl: "flag" "\<not> dry_run"
      using files' by (auto split: if_splits)
    from a w have n: "map_of W q = None" by simp
    show "(q = ld \<and> (\<exists>t. t \<noteq> [] \<and> map_of files' d = Some t))
            \<or> (q = lc \<and> dlc \<and> flag \<and> \<not> dry_run)"
    proof (cases "q = lc \<and> dlc")
      case True
      then show ?thesis using fl by simp
    next
      case False
      then have q: "dt \<noteq> [] \<and> q = ld"
        using n a by (simp add: mW split: if_splits)
      have "d \<noteq> lc" "d \<noteq> ld" using dist by auto
      then have "map_of W d = Some dt" using q by (simp add: mW)
      then show ?thesis using q w by blast
    qed
  qed
  show ?thesis
    using rid 1 2 3 4 unfolding c_def d_def ld_def lc_def by blast
qed

theorem migrate_frame_witness:
  "migrate_record_file example_sidecar_fs (example_root, ''X.json'') True False False
     = Inr (True, example_sidecar_fs1)
   \<and> map_of example_sidecar_fs1 (example_root, ''X.json'')
       = map_of example_sidecar_fs (example_root, ''X.json'')
   \<and> map_of example_sidecar_fs (example_root, ''X.compacted.json'') \<noteq> None
   \<and> map_of example_sidecar_fs1 (example_root, ''X.compacted.json'') = None"
proof -
  have c: "map_of example_sidecar_fs (example_root, ''X.compacted.json'') \<noteq> None"
    "map_of example_sidecar_fs1 (example_root, ''X.compacted.json'') = None"
    by (simp_all add: example_sidecar_fs_def example_sidecar_fs1_def)
  show ?thesis
    using migrate_frame [OF example_sidecar_run] example_sidecar_legacy_name
      example_sidecar_run c
    by blast
qed

subsection \<open>Migration of a legacy record with a sidecar\<close>



end
